theory Spec2Isabelle
  imports Complex_Main
begin

section \<open>Time\<close>

text \<open>
  The source reads the wall clock with \<^verbatim>\<open>datetime.now()\<close> (naive local time, microsecond
  resolution). A reading is an integer number of microseconds counted from a local midnight.
  Every reading the source takes is an input of the model: a function that calls
  \<^verbatim>\<open>datetime.now()\<close> at several places takes one reading for each place.
\<close>

type_synonym time = int

definition seconds :: "int \<Rightarrow> int" where
  "seconds n = n * 1000000"

definition timedelta_hours :: "int \<Rightarrow> int" where
  "timedelta_hours n = seconds (n * 3600)"

text \<open>
  \<^verbatim>\<open>strftime("%Y-%m-%d %H:%M:%S")\<close> drops the microseconds and \<^verbatim>\<open>strptime\<close> with the same
  format reads the string back: a stored timestamp is the reading cut to the whole second.
\<close>

definition strftime_seconds :: "time \<Rightarrow> time" where
  "strftime_seconds t = t - t mod 1000000"

section \<open>Safety monitor (CORE\_SYSTEM/safety\_monitor.py)\<close>

record activity =
  timestamp :: time
  activity_type :: string
  activity_platform :: string
  details :: string

record suspicious_activity =
  detected_at :: time
  suspicious_type :: string
  activities_count :: nat
  recommendation :: string

record safety_event =
  event_timestamp :: time
  event :: string
  event_action :: string
  duration_minutes :: int

record operation_limits =
  max_posts_per_day :: int
  min_delay_between_actions :: int
  max_actions_per_hour :: int
  max_concurrent_actions :: int

record measures =
  suspicious_activity_threshold :: int
  auto_suspend_on_detection :: bool
  rate_limiting :: bool

text \<open>
  The rules are a parsed JSON object. A section that the object lacks is \<open>None\<close>: reading it
  raises \<^verbatim>\<open>KeyError\<close> in the source. A section that is there has all its keys.
\<close>

record safety_rules =
  limits :: "operation_limits option"
  safety_measures :: "measures option"

text \<open>The file \<^verbatim>\<open>LOGS/safety_events.json\<close>, as \<^verbatim>\<open>save_safety_event\<close> finds it.\<close>

datatype events_file = Absent | Unreadable | Holds "safety_event list"

text \<open>
  The monitor object (\<open>monitoring\<close>, \<open>safety_log\<close>, \<open>suspicious_activities\<close>) together with
  the part of the file system it writes: the events file, and whether the file can be opened
  for writing.
\<close>

record monitor =
  monitoring :: bool
  safety_log :: "activity list"
  suspicious_activities :: "suspicious_activity list"
  events_file :: events_file
  writable :: bool

definition SafetyMonitor_init :: "events_file \<Rightarrow> bool \<Rightarrow> monitor" where
  "SafetyMonitor_init f w =
     \<lparr>monitoring = False, safety_log = [], suspicious_activities = [],
      events_file = f, writable = w\<rparr>"

definition get_default_rules :: safety_rules where
  "get_default_rules =
     \<lparr>limits = Some \<lparr>max_posts_per_day = 50, min_delay_between_actions = 30,
                      max_actions_per_hour = 20, max_concurrent_actions = 5\<rparr>,
      safety_measures = Some \<lparr>suspicious_activity_threshold = 10,
                              auto_suspend_on_detection = True, rate_limiting = True\<rparr>\<rparr>"

text \<open>
  \<^verbatim>\<open>load_safety_rules\<close>: the argument is what reading \<^verbatim>\<open>CONFIG/safety_rules.json\<close> gives,
  \<open>None\<close> when opening or parsing it raises.
\<close>

definition load_safety_rules :: "safety_rules option \<Rightarrow> safety_rules" where
  "load_safety_rules file = (case file of None \<Rightarrow> get_default_rules | Some r \<Rightarrow> r)"

text \<open>Python's \<^verbatim>\<open>xs[-n:]\<close> for a positive \<open>n\<close>.\<close>

definition last_n :: "nat \<Rightarrow> 'a list \<Rightarrow> 'a list" where
  "last_n n xs = drop (length xs - n) xs"

definition save_safety_event :: "safety_event \<Rightarrow> monitor \<Rightarrow> bool \<times> monitor" where
  "save_safety_event ev m =
     (case events_file m of
        Unreadable \<Rightarrow> (False, m)
      | Absent \<Rightarrow>
          if writable m then (True, m\<lparr>events_file := Holds [ev]\<rparr>) else (False, m)
      | Holds events \<Rightarrow>
          if writable m then (True, m\<lparr>events_file := Holds (events @ [ev])\<rparr>) else (False, m))"

definition trigger_safety_protocol :: "time \<Rightarrow> monitor \<Rightarrow> bool \<times> monitor" where
  "trigger_safety_protocol now m =
     (let safety_event = \<lparr>event_timestamp = strftime_seconds now,
                           event = ''safety_protocol_activated'',
                           event_action = ''temporary_suspension'',
                           duration_minutes = 30\<rparr>
      in (True, snd (save_safety_event safety_event m)))"

text \<open>
  The clock readings of one \<^verbatim>\<open>check_suspicious_activity\<close>: the list comprehension reads the
  clock once for every entry of the log (\<open>filter_now i\<close> for the entry at index \<open>i\<close>), then
  \<open>detected_at\<close> is read, then the timestamp of the safety event.
\<close>

record check_clock =
  filter_now :: "nat \<Rightarrow> time"
  detect_now :: time
  protocol_now :: time

definition recent_activities :: "(nat \<Rightarrow> time) \<Rightarrow> activity list \<Rightarrow> activity list" where
  "recent_activities now entries =
     map snd (filter (\<lambda>(i, act). now i - timestamp act < timedelta_hours 1) (enumerate 0 entries))"

definition check_suspicious_activity ::
  "safety_rules \<Rightarrow> check_clock \<Rightarrow> activity \<Rightarrow> monitor \<Rightarrow> bool \<times> monitor" where
  "check_suspicious_activity rules clk activity m =
     (case safety_measures rules of
        None \<Rightarrow> (False, m)
      | Some sm \<Rightarrow>
          (let threshold = suspicious_activity_threshold sm;
               recent = recent_activities (filter_now clk) (safety_log m)
           in if int (length recent) > threshold then
                (let suspicious = \<lparr>detected_at = strftime_seconds (detect_now clk),
                                    suspicious_type = ''high_frequency_activity'',
                                    activities_count = length recent,
                                    recommendation = ''Suspend operations temporarily''\<rparr>;
                     m1 = m\<lparr>suspicious_activities := suspicious_activities m @ [suspicious]\<rparr>;
                     m2 = (if auto_suspend_on_detection sm
                           then snd (trigger_safety_protocol (protocol_now clk) m1) else m1)
                 in (True, m2))
              else (False, m)))"

text \<open>
  What one \<^verbatim>\<open>log_activity\<close> call reads from outside: the clock for the entry's timestamp, the
  rules file, and the clock readings of the check.
\<close>

record log_env =
  stamp_now :: time
  rules_file :: "safety_rules option"
  check_clock :: check_clock

definition new_activity :: "log_env \<Rightarrow> string \<Rightarrow> string \<Rightarrow> string \<Rightarrow> activity" where
  "new_activity env ty pf det =
     \<lparr>timestamp = strftime_seconds (stamp_now env), activity_type = ty,
      activity_platform = pf, details = det\<rparr>"

definition log_activity ::
  "log_env \<Rightarrow> string \<Rightarrow> string \<Rightarrow> string \<Rightarrow> monitor \<Rightarrow> bool \<times> monitor" where
  "log_activity env ty pf det m =
     (let activity = new_activity env ty pf det;
          log1 = safety_log m @ [activity];
          log2 = (if length log1 > 1000 then last_n 1000 log1 else log1);
          m1 = m\<lparr>safety_log := log2\<rparr>;
          m2 = snd (check_suspicious_activity (load_safety_rules (rules_file env))
                      (check_clock env) activity m1)
      in (True, m2))"

record safety_report =
  generated_at :: time
  total_activities_monitored :: nat
  suspicious_activities_detected :: nat
  recent_suspicious_activities :: "suspicious_activity list"
  safety_status :: string
  recommendations :: "string list"

text \<open>
  \<^verbatim>\<open>get_safety_report\<close>: the two \<^verbatim>\<open>if\<close> statements run one after the other, each
  overwriting \<open>safety_status\<close>. The handler that returns an empty report is not reached: the
  timestamps of the log are well formed.
\<close>

definition get_safety_report :: "time \<Rightarrow> (nat \<Rightarrow> time) \<Rightarrow> monitor \<Rightarrow> safety_report" where
  "get_safety_report now filter_clock m =
     (let report = \<lparr>generated_at = strftime_seconds now,
                     total_activities_monitored = length (safety_log m),
                     suspicious_activities_detected = length (suspicious_activities m),
                     recent_suspicious_activities = last_n 5 (suspicious_activities m),
                     safety_status = ''normal'',
                     recommendations = []\<rparr>;
          report1 = (if suspicious_activities m \<noteq> [] then
                       report\<lparr>safety_status := ''attention_required'',
                              recommendations :=
                                recommendations report @ [''Review recent suspicious activities'']\<rparr>
                     else report);
          recent_hour_activities = recent_activities filter_clock (safety_log m)
      in if length recent_hour_activities > 50 then
           report1\<lparr>safety_status := ''high_activity'',
                   recommendations :=
                     recommendations report1 @ [''Consider increasing delay between actions'']\<rparr>
         else report1)"

definition reset_monitoring :: "monitor \<Rightarrow> monitor" where
  "reset_monitoring m = m\<lparr>safety_log := [], suspicious_activities := []\<rparr>"

text \<open>A caller's sequence of \<^verbatim>\<open>log_activity\<close> calls, each with its own inputs.\<close>

record log_call =
  call_env :: log_env
  call_type :: string
  call_platform :: string
  call_details :: string

definition activity_of :: "log_call \<Rightarrow> activity" where
  "activity_of c = new_activity (call_env c) (call_type c) (call_platform c) (call_details c)"

fun log_all :: "log_call list \<Rightarrow> monitor \<Rightarrow> monitor" where
  "log_all [] m = m"
| "log_all (c # cs) m =
     log_all cs (snd (log_activity (call_env c) (call_type c) (call_platform c) (call_details c) m))"


subsection \<open>Notions used in the statements about the monitor\<close>

text \<open>The threshold a call reads from its rules, if the rules have the section.\<close>

definition threshold_of :: "log_call \<Rightarrow> int option" where
  "threshold_of c =
     map_option suspicious_activity_threshold
       (safety_measures (load_safety_rules (rules_file (call_env c))))"

text \<open>
  The trailing one-hour count of the log of \<open>m\<close>, as a check with the inputs \<open>env\<close> counts it,
  exceeds the threshold.
\<close>

definition breach :: "log_env \<Rightarrow> monitor \<Rightarrow> bool" where
  "breach env m =
     (case safety_measures (load_safety_rules (rules_file env)) of
        None \<Rightarrow> False
      | Some sm \<Rightarrow>
          int (length (recent_activities (filter_now (check_clock env)) (safety_log m)))
            > suspicious_activity_threshold sm)"

text \<open>
  Every entry of the calls is less than one hour old at every clock reading a later check (or
  its own) compares it with.
\<close>

definition within_one_hour :: "log_call list \<Rightarrow> bool" where
  "within_one_hour cs =
     (\<forall>j < length cs. \<forall>i \<le> j.
        filter_now (check_clock (call_env (cs ! j))) i - timestamp (activity_of (cs ! i))
          < timedelta_hours 1)"


section \<open>API client (CORE\_SYSTEM/api\_client.py)\<close>

subsection \<open>What the client receives from outside\<close>

datatype json =
  JNull | JBool bool | JNumber int | JString string
  | JArray "json list" | JObject "(string \<times> json) list"

text \<open>
  \<^verbatim>\<open>response.json()\<close> returns the parsed body or raises. The \<^verbatim>\<open>requests\<close> library raises
  an exception that is a \<^verbatim>\<open>RequestException\<close> in its recent versions and a plain
  \<^verbatim>\<open>ValueError\<close> in older ones; the two are kept apart, since the source catches them at
  different places.
\<close>

datatype json_outcome =
  Parsed json | Json_RequestException string | Json_other_exception string

record response =
  status_code :: int
  content :: string
  json_result :: json_outcome

text \<open>
  One call of \<^verbatim>\<open>session.get\<close>, \<^verbatim>\<open>session.post\<close> or \<^verbatim>\<open>session.put\<close> returns a response or
  raises. The exception classes are those of the handlers of \<^verbatim>\<open>make_request\<close>, in their
  order; \<open>Raises_other\<close> is an exception none of the three inner handlers catches.
\<close>

datatype http_outcome =
  Returns response
  | Raises_Timeout
  | Raises_ConnectionError
  | Raises_RequestException string
  | Raises_other string

datatype http_method = GET | POST | PUT

text \<open>
  The network: the outcome of the call made in attempt \<open>k\<close> (from 0) with the given method.
  The URL, the merged headers and the data of the request are fixed during one
  \<^verbatim>\<open>make_request\<close> and are part of this function.
\<close>

type_synonym transport = "http_method \<Rightarrow> nat \<Rightarrow> http_outcome"

subsection \<open>Results\<close>

datatype py_exception = UnboundLocalError string | Exception string

text \<open>
  The second component of the pair \<^verbatim>\<open>make_request\<close> returns: the parsed body, or one of the
  messages of the source with the values it interpolates:
  \<^item> \<open>Unsupported_method m\<close>: \<^verbatim>\<open>f"Unsupported HTTP method: {method}"\<close>
  \<^item> \<open>Request_timeout\<close>: \<^verbatim>\<open>"Request timeout"\<close>
  \<^item> \<open>Connection_error\<close>: \<^verbatim>\<open>"Connection error"\<close>
  \<^item> \<open>Request_error e\<close>: \<^verbatim>\<open>f"Request error: {e}"\<close>
  \<^item> \<open>Failed_after n st\<close>: \<^verbatim>\<open>f"Request failed after {retries} attempts. Status: {response.status_code}"\<close>
  \<^item> \<open>Unexpected_error e\<close>: \<^verbatim>\<open>f"Unexpected error: {e}"\<close>
\<close>

datatype reply =
  Body json
  | Unsupported_method string
  | Request_timeout
  | Connection_error
  | Request_error string
  | Failed_after int int
  | Unexpected_error py_exception

fun is_message :: "reply \<Rightarrow> bool" where
  "is_message (Body _) = False"
| "is_message _ = True"

text \<open>
  What a call does besides returning: the number of HTTP calls it has made and the arguments
  of its \<^verbatim>\<open>time.sleep\<close> calls (seconds), in order.
\<close>

record effects =
  http_calls :: nat
  sleeps :: "nat list"

subsection \<open>make\_request\<close>

text \<open>\<^verbatim>\<open>str.upper\<close> on the letters of ASCII, which is where method names live.\<close>

definition upper :: "string \<Rightarrow> string" where
  "upper s =
     map (\<lambda>c. case map_of (zip ''abcdefghijklmnopqrstuvwxyz'' ''ABCDEFGHIJKLMNOPQRSTUVWXYZ'') c of
                 None \<Rightarrow> c | Some u \<Rightarrow> u) s"

definition dispatch_method :: "string \<Rightarrow> http_method option" where
  "dispatch_method method =
     (if upper method = ''GET'' then Some GET
      else if upper method = ''POST'' then Some POST
      else if upper method = ''PUT'' then Some PUT
      else None)"

text \<open>
  The backoff of the three inner handlers and of the path of a failed response:
  \<^verbatim>\<open>if attempt < retries - 1: time.sleep(2 ** attempt)\<close>.
\<close>

definition backoff :: "int \<Rightarrow> nat \<Rightarrow> effects \<Rightarrow> effects" where
  "backoff retries attempt eff =
     (if int attempt < retries - 1 then eff\<lparr>sleeps := sleeps eff @ [2 ^ attempt]\<rparr> else eff)"

text \<open>
  How one iteration of the loop \<^verbatim>\<open>for attempt in range(retries)\<close> ends: with a
  \<^verbatim>\<open>return\<close>, or by going on to the next iteration (the end of the body, or
  \<^verbatim>\<open>continue\<close>) with the local variable \<^verbatim>\<open>response\<close> as it then is (\<open>None\<close> while it is
  unbound).
\<close>

datatype iteration =
  Return "bool \<times> reply" effects
  | Next_attempt "response option" effects

definition attempt_body ::
  "transport \<Rightarrow> string \<Rightarrow> int \<Rightarrow> nat \<Rightarrow> response option \<Rightarrow> effects \<Rightarrow> iteration" where
  "attempt_body tr method retries attempt prev eff =
     (case dispatch_method method of
        None \<Rightarrow> Return (False, Unsupported_method method) eff
      | Some m \<Rightarrow>
          (let eff1 = eff\<lparr>http_calls := http_calls eff + 1\<rparr> in
           case tr m attempt of
             Returns response \<Rightarrow>
               if 200 \<le> status_code response \<and> status_code response < 300 then
                 (if content response \<noteq> [] then
                    (case json_result response of
                       Parsed v \<Rightarrow> Return (True, Body v) eff1
                     | Json_RequestException e \<Rightarrow>
                         if int attempt < retries - 1
                         then Next_attempt (Some response) (backoff retries attempt eff1)
                         else Return (False, Request_error e) eff1
                     | Json_other_exception e \<Rightarrow>
                         Return (False, Unexpected_error (Exception e)) eff1)
                  else Return (True, Body (JObject [])) eff1)
               else Next_attempt (Some response) (backoff retries attempt eff1)
           | Raises_Timeout \<Rightarrow>
               if int attempt < retries - 1
               then Next_attempt prev (backoff retries attempt eff1)
               else Return (False, Request_timeout) eff1
           | Raises_ConnectionError \<Rightarrow>
               if int attempt < retries - 1
               then Next_attempt prev (backoff retries attempt eff1)
               else Return (False, Connection_error) eff1
           | Raises_RequestException e \<Rightarrow>
               if int attempt < retries - 1
               then Next_attempt prev (backoff retries attempt eff1)
               else Return (False, Request_error e) eff1
           | Raises_other e \<Rightarrow> Return (False, Unexpected_error (Exception e)) eff1))"

text \<open>
  The loop: \<open>attempt\<close> is the loop variable, the next argument the number of iterations
  left. The first equation is the code after the loop: reading \<^verbatim>\<open>response.status_code\<close>
  of an unbound variable raises, and the outer handler turns the exception into a result.
\<close>

fun request_loop ::
  "transport \<Rightarrow> string \<Rightarrow> int \<Rightarrow> nat \<Rightarrow> nat \<Rightarrow> response option \<Rightarrow> effects
     \<Rightarrow> (bool \<times> reply) \<times> effects" where
  "request_loop tr method retries attempt 0 prev eff =
     (case prev of
        None \<Rightarrow> ((False, Unexpected_error (UnboundLocalError ''response'')), eff)
      | Some response \<Rightarrow> ((False, Failed_after retries (status_code response)), eff))"
| "request_loop tr method retries attempt (Suc left) prev eff =
     (case attempt_body tr method retries attempt prev eff of
        Return result eff1 \<Rightarrow> (result, eff1)
      | Next_attempt response eff1 \<Rightarrow>
          request_loop tr method retries (Suc attempt) left response eff1)"

definition make_request :: "transport \<Rightarrow> string \<Rightarrow> int \<Rightarrow> (bool \<times> reply) \<times> effects" where
  "make_request tr method retries =
     request_loop tr method retries 0 (nat retries) None \<lparr>http_calls = 0, sleeps = []\<rparr>"


subsection \<open>Simulated platform actions\<close>

text \<open>
  What one simulated action reads from outside: the value of \<^verbatim>\<open>random.random()\<close> (the float,
  read as the real number it denotes), \<^verbatim>\<open>int(time.time())\<close>, the clock for the timestamp, and
  the value that \<^verbatim>\<open>round(time.time() - start_time, 2)\<close> comes to in
  \<^verbatim>\<open>execute_social_action\<close>. The \<^verbatim>\<open>time.sleep\<close> of a simulation only lets time pass.
\<close>

record sim_env =
  random_draw :: real
  unix_time :: int
  iso_now :: time
  response_time :: real

text \<open>
  The second component of the pair an action returns: the dict of a success (the prefix and
  the number of its \<open>id\<close>, the \<open>action\<close>, the \<open>timestamp\<close>), the dict of a simulated error
  (\<open>error\<close>, \<open>code\<close>, \<open>timestamp\<close>), each with the \<open>response_time\<close> once it has been added,
  or a message.
\<close>

datatype action_result =
  Action_success "string \<times> int" "string option" time "real option"
  | Action_error string string time "real option"
  | Action_message string

definition simulate_facebook_action ::
  "sim_env \<Rightarrow> string option \<Rightarrow> string option \<Rightarrow> string option \<Rightarrow> bool \<times> action_result" where
  "simulate_facebook_action env action_type target_url access_token =
     (let success = random_draw env < 9 / 10
      in if success then (True, Action_success (''fb_'', unix_time env) action_type (iso_now env) None)
         else (False, Action_error ''Simulated API error'' ''API_ERROR'' (iso_now env) None))"

definition simulate_instagram_action ::
  "sim_env \<Rightarrow> string option \<Rightarrow> string option \<Rightarrow> string option \<Rightarrow> bool \<times> action_result" where
  "simulate_instagram_action env action_type target_url access_token =
     (let success = random_draw env < 85 / 100
      in if success then (True, Action_success (''ig_'', unix_time env) action_type (iso_now env) None)
         else (False, Action_error ''Simulated API error'' ''API_ERROR'' (iso_now env) None))"

definition simulate_twitter_action ::
  "sim_env \<Rightarrow> string option \<Rightarrow> string option \<Rightarrow> string option \<Rightarrow> bool \<times> action_result" where
  "simulate_twitter_action env action_type target_url access_token =
     (let success = random_draw env < 80 / 100
      in if success then (True, Action_success (''tw_'', unix_time env) action_type (iso_now env) None)
         else (False, Action_error ''Simulated API error'' ''API_ERROR'' (iso_now env) None))"

text \<open>\<^verbatim>\<open>if isinstance(result, dict): result["response_time"] = ...\<close>\<close>

fun add_response_time :: "real \<Rightarrow> action_result \<Rightarrow> action_result" where
  "add_response_time t (Action_success ident action ts _) = Action_success ident action ts (Some t)"
| "add_response_time t (Action_error err code ts _) = Action_error err code ts (Some t)"
| "add_response_time t (Action_message msg) = Action_message msg"

text \<open>How an f-string prints a value that \<^verbatim>\<open>dict.get\<close> returned: \<^verbatim>\<open>None\<close> for a missing key.\<close>

definition format_value :: "string option \<Rightarrow> string" where
  "format_value v = (case v of None \<Rightarrow> ''None'' | Some s \<Rightarrow> s)"

definition execute_social_action ::
  "sim_env \<Rightarrow> string option \<Rightarrow> string option \<Rightarrow> string option \<Rightarrow> string option
     \<Rightarrow> bool \<times> action_result" where
  "execute_social_action env platform action_type target_url access_token =
     (if platform = Some ''facebook'' then
        (let (success, result) = simulate_facebook_action env action_type target_url access_token
         in (success, add_response_time (response_time env) result))
      else if platform = Some ''instagram'' then
        (let (success, result) = simulate_instagram_action env action_type target_url access_token
         in (success, add_response_time (response_time env) result))
      else if platform = Some ''twitter'' then
        (let (success, result) = simulate_twitter_action env action_type target_url access_token
         in (success, add_response_time (response_time env) result))
      else (False, Action_message (''Unsupported platform: '' @ format_value platform)))"

subsection \<open>batch\_execute\_actions\<close>

text \<open>
  An action of a batch is a dict; the loop reads four keys with \<^verbatim>\<open>dict.get\<close>, which gives
  \<^verbatim>\<open>None\<close> for a key the dict lacks.
\<close>

record action =
  platform :: "string option"
  action_type :: "string option"
  target_url :: "string option"
  access_token :: "string option"

record batch_entry =
  entry_platform :: "string option"
  entry_action_type :: "string option"
  entry_success :: bool
  entry_result :: action_result
  entry_timestamp :: time

text \<open>
  What the iteration for one action reads from outside: the inputs of the simulated action
  and the clock for the timestamp of the entry. The \<^verbatim>\<open>time.sleep\<close> between actions only lets
  time pass.
\<close>

record batch_env =
  sim :: sim_env
  entry_now :: time

datatype batch_reply = Results "batch_entry list" | Batch_error string

text \<open>The body of the loop: the entry appended for one action.\<close>

definition batch_entry_of :: "batch_env \<Rightarrow> action \<Rightarrow> batch_entry" where
  "batch_entry_of env action =
     (let (success, result) =
            execute_social_action (sim env) (platform action) (action_type action)
              (target_url action) (access_token action)
      in \<lparr>entry_platform = platform action, entry_action_type = action_type action,
          entry_success = success, entry_result = result, entry_timestamp = entry_now env\<rparr>)"

text \<open>
  The loop \<^verbatim>\<open>for action in actions\<close>: \<open>i\<close> counts the iterations, \<open>env i\<close> is what iteration
  \<open>i\<close> reads from outside, \<open>results\<close> is the list built so far.
\<close>

fun batch_loop ::
  "(nat \<Rightarrow> batch_env) \<Rightarrow> nat \<Rightarrow> action list \<Rightarrow> batch_entry list \<Rightarrow> batch_entry list" where
  "batch_loop env i [] results = results"
| "batch_loop env i (action # rest) results =
     batch_loop env (Suc i) rest (results @ [batch_entry_of (env i) action])"

text \<open>
  Nothing in the loop raises on a list of dicts (\<^verbatim>\<open>execute_social_action\<close> catches its own
  exceptions), so the handler that returns \<open>Batch_error\<close> is not reached.
\<close>

definition batch_execute_actions :: "(nat \<Rightarrow> batch_env) \<Rightarrow> action list \<Rightarrow> bool \<times> batch_reply" where
  "batch_execute_actions env actions = (True, Results (batch_loop env 0 actions []))"


subsection \<open>Notions used in the statements about the client\<close>

text \<open>The test of the source for a successful response: \<^verbatim>\<open>200 <= response.status_code < 300\<close>.\<close>

definition ok_status :: "response \<Rightarrow> bool" where
  "ok_status r = (200 \<le> status_code r \<and> status_code r < 300)"


section \<open>Scheduler (CORE\_SYSTEM/scheduler.py)\<close>

subsection \<open>Configuration\<close>

record hours =
  start_time :: string
  end_time :: string
  hours_enabled :: bool

record break_rule =
  after_minutes :: int
  break_minutes :: int
  enabled :: bool

text \<open>
  The parsed \<^verbatim>\<open>CONFIG/auto_schedule.json\<close>. A key that the object lacks is \<open>None\<close>:
  \<^verbatim>\<open>config['operational_hours']\<close> then raises \<^verbatim>\<open>KeyError\<close>, and
  \<^verbatim>\<open>config.get('break_schedule', [])\<close> gives the empty list.
\<close>

record config =
  operational_hours :: "hours option"
  break_schedule :: "break_rule list option"

definition get_default_config :: config where
  "get_default_config =
     \<lparr>operational_hours = Some \<lparr>start_time = ''06:00'', end_time = ''23:00'', hours_enabled = True\<rparr>,
      break_schedule = Some [\<lparr>after_minutes = 60, break_minutes = 15, enabled = True\<rparr>]\<rparr>"

text \<open>\<^verbatim>\<open>load_config\<close>: the argument is what reading the file gives, \<open>None\<close> when it raises.\<close>

definition load_config :: "config option \<Rightarrow> config" where
  "load_config file = (case file of None \<Rightarrow> get_default_config | Some c \<Rightarrow> c)"

subsection \<open>Operational hours\<close>

text \<open>\<^verbatim>\<open>strftime("%H:%M")\<close> of a clock reading.\<close>

definition two_digits :: "nat \<Rightarrow> string" where
  "two_digits n = [''0123456789'' ! (n div 10 mod 10), ''0123456789'' ! (n mod 10)]"

definition strftime_HM :: "time \<Rightarrow> string" where
  "strftime_HM t =
     (let minute_of_day = nat ((t div 60000000) mod 1440)
      in two_digits (minute_of_day div 60) @ '':'' @ two_digits (minute_of_day mod 60))"

text \<open>Python's \<^verbatim>\<open><=\<close> on strings: lexicographic, by character code.\<close>

fun str_le :: "string \<Rightarrow> string \<Rightarrow> bool" where
  "str_le [] ys = True"
| "str_le (x # xs) [] = False"
| "str_le (x # xs) (y # ys) =
     (if x = y then str_le xs ys else (of_char x :: nat) < of_char y)"

text \<open>
  \<^verbatim>\<open>is_within_operational_hours\<close>: a configuration without the section raises inside the
  \<^verbatim>\<open>try\<close>, and the handler returns \<open>True\<close>.
\<close>

definition is_within_operational_hours :: "config option \<Rightarrow> time \<Rightarrow> bool" where
  "is_within_operational_hours file now =
     (case operational_hours (load_config file) of
        None \<Rightarrow> True
      | Some oh \<Rightarrow>
          if \<not> hours_enabled oh then True
          else (let current_time = strftime_HM now
                in str_le (start_time oh) current_time \<and> str_le current_time (end_time oh)))"

subsection \<open>Tasks and the scheduler object\<close>

text \<open>
  A task function works on the world outside the scheduler, of type \<open>'w\<close>: called in a world
  it returns normally (\<open>None\<close>) or raises an exception (\<open>Some\<close> of its text), and leaves a new
  world. It does not touch the scheduler object.
\<close>

record 'w task =
  name :: string
  "function" :: "'w \<Rightarrow> string option \<times> 'w"
  interval :: int
  last_run :: "time option"

record 'w scheduler =
  is_running :: bool
  tasks :: "'w task list"
  break_mode :: bool
  last_break_time :: "time option"

definition AutomationScheduler_init :: "'w scheduler" where
  "AutomationScheduler_init =
     \<lparr>is_running = False, tasks = [], break_mode = False, last_break_time = None\<rparr>"

text \<open>What the scheduler prints, and its \<^verbatim>\<open>time.sleep\<close> calls (seconds), in order.\<close>

datatype event =
  Sleep nat
  | Print_starting
  | Print_stopping
  | Print_outside_hours
  | Print_taking_break int
  | Print_resuming_in nat
  | Print_break_completed
  | Print_task_added string int
  | Print_running_task string
  | Print_task_failed string string

definition stop :: "'w scheduler \<Rightarrow> 'w scheduler \<times> event list" where
  "stop s = (s\<lparr>is_running := False\<rparr>, [Print_stopping])"

definition add_task ::
  "string \<Rightarrow> ('w \<Rightarrow> string option \<times> 'w) \<Rightarrow> int \<Rightarrow> 'w scheduler \<Rightarrow> 'w scheduler \<times> event list" where
  "add_task task_name task_function interval_minutes s =
     (let task = \<lparr>name = task_name, function = task_function,
                   interval = interval_minutes, last_run = None\<rparr>
      in (s\<lparr>tasks := tasks s @ [task]\<rparr>, [Print_task_added task_name interval_minutes]))"

text \<open>
  \<^verbatim>\<open>time.sleep(n)\<close> in the loop thread; \<open>stopped\<close> says that another thread calls
  \<^verbatim>\<open>stop()\<close> meanwhile.
\<close>

definition sleeping :: "bool \<Rightarrow> nat \<Rightarrow> 'w scheduler \<Rightarrow> 'w scheduler \<times> event list" where
  "sleeping stopped n s =
     (if stopped then (fst (stop s), Sleep n # snd (stop s)) else (s, [Sleep n]))"

subsection \<open>Breaks\<close>

text \<open>
  The condition of the loop of \<^verbatim>\<open>should_take_break\<close> for one schedule. The minutes are
  compared as exact quotients: \<open>d / 60 \<ge> m\<close> for a difference of \<open>d\<close> seconds is
  \<open>d \<ge> 60 * m\<close>.
\<close>

definition break_due :: "time \<Rightarrow> time \<Rightarrow> time option \<Rightarrow> break_rule \<Rightarrow> bool" where
  "break_due current_time start last_break schedule =
     (enabled schedule \<and>
      current_time - start \<ge> seconds (after_minutes schedule * 60) \<and>
      (case last_break of
         None \<Rightarrow> True
       | Some t \<Rightarrow> current_time - t \<ge> seconds (after_minutes schedule * 60)))"

text \<open>
  \<^verbatim>\<open>should_take_break\<close> returns a schedule, \<^verbatim>\<open>False\<close> or \<^verbatim>\<open>None\<close>; its caller only tests
  the result for truth, so \<^verbatim>\<open>False\<close> and \<^verbatim>\<open>None\<close> are both \<open>None\<close> here.
\<close>

definition should_take_break ::
  "config option \<Rightarrow> time \<Rightarrow> time \<Rightarrow> 'w scheduler \<Rightarrow> break_rule option" where
  "should_take_break file current_time start s =
     (if break_mode s then None
      else (let config = load_config file;
                break_schedules = (case break_schedule config of None \<Rightarrow> [] | Some rs \<Rightarrow> rs)
            in find (break_due current_time start (last_break_time s)) break_schedules))"

text \<open>
  The countdown \<^verbatim>\<open>for remaining in range(break_minutes, 0, -1)\<close>. The second argument counts
  the sleeps done, the third is \<open>remaining\<close>. Another thread may call \<^verbatim>\<open>stop()\<close> while the
  countdown sleeps: \<open>stop_in = Some k\<close> says that it does so during sleep number \<open>k\<close> (from 0),
  \<open>None\<close> that it does not.
\<close>

fun countdown ::
  "nat option \<Rightarrow> nat \<Rightarrow> nat \<Rightarrow> 'w scheduler \<Rightarrow> 'w scheduler \<times> event list" where
  "countdown stop_in slept 0 s = (s, [])"
| "countdown stop_in slept (Suc r) s =
     (if \<not> is_running s then (s, [])
      else (let (s1, evs1) = sleeping (stop_in = Some slept) 60 s;
                (s2, evs2) = countdown stop_in (Suc slept) r s1
            in (s2, Print_resuming_in (Suc r) # evs1 @ evs2)))"

definition take_break ::
  "nat option \<Rightarrow> time \<Rightarrow> break_rule \<Rightarrow> 'w scheduler \<Rightarrow> 'w scheduler \<times> event list" where
  "take_break stop_in end_now schedule s =
     (let s1 = s\<lparr>break_mode := True\<rparr>;
          (s2, evs) = countdown stop_in 0 (nat (break_minutes schedule)) s1
      in if is_running s2
         then (s2\<lparr>break_mode := False, last_break_time := Some end_now\<rparr>,
               Print_taking_break (break_minutes schedule) # evs @ [Print_break_completed])
         else (s2, Print_taking_break (break_minutes schedule) # evs))"

subsection \<open>Running the tasks\<close>

definition due :: "time \<Rightarrow> 'w task \<Rightarrow> bool" where
  "due current_time task =
     (case last_run task of
        None \<Rightarrow> True
      | Some t \<Rightarrow> current_time - t \<ge> seconds (interval task * 60))"

text \<open>
  The body of the loop of \<^verbatim>\<open>run_tasks\<close> for one task: the assignment to \<open>last_run\<close> follows
  the call inside the \<^verbatim>\<open>try\<close>, so an exception of the call skips it.
\<close>

definition run_task :: "time \<Rightarrow> 'w task \<Rightarrow> 'w \<Rightarrow> 'w task \<times> 'w \<times> event list" where
  "run_task current_time task w =
     (if due current_time task then
        (case function task w of
           (None, w1) \<Rightarrow> (task\<lparr>last_run := Some current_time\<rparr>, w1, [Print_running_task (name task)])
         | (Some e, w1) \<Rightarrow>
             (task, w1, [Print_running_task (name task), Print_task_failed (name task) e]))
      else (task, w, []))"

fun run_each :: "time \<Rightarrow> 'w task list \<Rightarrow> 'w \<Rightarrow> 'w task list \<times> 'w \<times> event list" where
  "run_each current_time [] w = ([], w, [])"
| "run_each current_time (task # rest) w =
     (let (task1, w1, evs1) = run_task current_time task w;
          (rest1, w2, evs2) = run_each current_time rest w1
      in (task1 # rest1, w2, evs1 @ evs2))"

definition run_tasks ::
  "config option \<Rightarrow> time \<Rightarrow> time \<Rightarrow> 'w scheduler \<Rightarrow> 'w \<Rightarrow> 'w scheduler \<times> 'w \<times> event list" where
  "run_tasks file hours_time current_time s w =
     (if break_mode s \<or> \<not> is_within_operational_hours file hours_time then (s, w, [])
      else (let (tasks1, w1, evs) = run_each current_time (tasks s) w
            in (s\<lparr>tasks := tasks1\<rparr>, w1, evs)))"

subsection \<open>The main loop\<close>

text \<open>
  What one iteration of the loop of \<^verbatim>\<open>start\<close> reads from outside: the configuration file, the
  clock at each place that reads it (the hours check, the break check, the end of a break, the
  new \<open>start_time\<close> after a break, the hours check and \<open>current_time\<close> of \<^verbatim>\<open>run_tasks\<close>), and
  the calls of \<^verbatim>\<open>stop()\<close> that another thread makes while the iteration sleeps: during the
  countdown of a break (\<open>stop_in_break\<close>), or during the sleep that ends the iteration
  (\<open>stop_in_sleep\<close>).
\<close>

record tick_env =
  config_file :: "config option"
  hours_now :: time
  break_now :: time
  stop_in_break :: "nat option"
  break_end_now :: time
  restart_now :: time
  tasks_hours_now :: time
  tasks_now :: time
  stop_in_sleep :: bool

text \<open>
  One iteration of \<^verbatim>\<open>while self.is_running\<close>, on the scheduler, the local variable
  \<open>start_time\<close> and the world of the tasks. Nothing in an iteration raises up to the handlers
  of the loop: the failures of tasks are caught in \<^verbatim>\<open>run_tasks\<close>. A \<^verbatim>\<open>KeyboardInterrupt\<close>,
  which would leave the loop, is outside the model.
\<close>

definition tick ::
  "tick_env \<Rightarrow> 'w scheduler \<times> time \<times> 'w \<Rightarrow> ('w scheduler \<times> time \<times> 'w) \<times> event list" where
  "tick env st =
     (case st of (s, start, w) \<Rightarrow>
        if \<not> is_within_operational_hours (config_file env) (hours_now env) then
          (let (s1, evs) = sleeping (stop_in_sleep env) 300 s
           in ((s1, start, w), Print_outside_hours # evs))
        else
          (case should_take_break (config_file env) (break_now env) start s of
             Some schedule \<Rightarrow>
               (let (s1, evs) = take_break (stop_in_break env) (break_end_now env) schedule s
                in ((s1, restart_now env, w), evs))
           | None \<Rightarrow>
               (let (s1, w1, evs1) =
                      run_tasks (config_file env) (tasks_hours_now env) (tasks_now env) s w;
                    (s2, evs2) = sleeping (stop_in_sleep env) 60 s1
                in ((s2, start, w1), evs1 @ evs2))))"

text \<open>
  The loop runs as long as \<open>is_running\<close> holds, possibly for ever. The list gives the inputs
  of the iterations to come; when it is used up, the result is the state the loop has reached.
\<close>

fun start_loop ::
  "tick_env list \<Rightarrow> 'w scheduler \<times> time \<times> 'w \<Rightarrow> event list
     \<Rightarrow> ('w scheduler \<times> time \<times> 'w) \<times> event list" where
  "start_loop [] st evs = (st, evs)"
| "start_loop (env # envs) st evs =
     (if is_running (fst st)
      then (let (st1, evs1) = tick env st in start_loop envs st1 (evs @ evs1))
      else (st, evs))"

definition start ::
  "time \<Rightarrow> tick_env list \<Rightarrow> 'w scheduler \<Rightarrow> 'w \<Rightarrow> ('w scheduler \<times> time \<times> 'w) \<times> event list" where
  "start now envs s w = start_loop envs (s\<lparr>is_running := True\<rparr>, now, w) [Print_starting]"


subsection \<open>Notions used in the statements about the scheduler\<close>

text \<open>The sleeps among the events, and the names of the tasks the events show as dispatched.\<close>

fun is_sleep :: "event \<Rightarrow> bool" where
  "is_sleep (Sleep n) = True"
| "is_sleep _ = False"

fun dispatched :: "event list \<Rightarrow> string list" where
  "dispatched [] = []"
| "dispatched (Print_running_task n # evs) = n # dispatched evs"
| "dispatched (_ # evs) = dispatched evs"

text \<open>
  The world that the loop of \<^verbatim>\<open>run_tasks\<close> has reached after the given tasks, in order: every
  task that is due has been called, whether it returned or raised, and no other.
\<close>

fun world_after :: "time \<Rightarrow> 'w task list \<Rightarrow> 'w \<Rightarrow> 'w" where
  "world_after now [] w = w"
| "world_after now (t # ts) w =
     world_after now ts (if due now t then snd (function t w) else w)"


text \<open>
  The outcome \<open>r\<close> of a run of the loop that started from the scheduler \<open>s\<close> and the world
  \<open>w\<close> shows no work: the scheduler is in break mode, its tasks and its last break time are
  those of \<open>s\<close>, the world is still \<open>w\<close>, and no task was dispatched.
\<close>

definition blocked :: "'w scheduler \<Rightarrow> 'w \<Rightarrow> ('w scheduler \<times> time \<times> 'w) \<times> event list \<Rightarrow> bool" where
  "blocked s w r =
     (break_mode (fst (fst r)) \<and> tasks (fst (fst r)) = tasks s \<and>
      last_break_time (fst (fst r)) = last_break_time s \<and>
      snd (snd (fst r)) = w \<and> dispatched (snd r) = [])"


section \<open>Example inputs\<close>

text \<open>A clock that gives every reading of one check the same value.\<close>

definition steady_clock :: "time \<Rightarrow> check_clock" where
  "steady_clock t = \<lparr>filter_now = (\<lambda>i. t), detect_now = t, protocol_now = t\<rparr>"

definition like_call :: "nat \<Rightarrow> log_call" where
  "like_call i =
     \<lparr>call_env = \<lparr>stamp_now = seconds (int i), rules_file = None,
                    check_clock = steady_clock (seconds (int i))\<rparr>,
      call_type = ''like'', call_platform = ''facebook'', call_details = ''post''\<rparr>"

text \<open>The same call, under a rules file.\<close>

definition rules_with_threshold :: "int \<Rightarrow> safety_rules" where
  "rules_with_threshold th =
     \<lparr>limits = None,
      safety_measures = Some \<lparr>suspicious_activity_threshold = th,
                              auto_suspend_on_detection = True, rate_limiting = True\<rparr>\<rparr>"

definition like_call_under :: "safety_rules \<Rightarrow> nat \<Rightarrow> log_call" where
  "like_call_under rules i = (like_call i)\<lparr>call_env := (call_env (like_call i))\<lparr>rules_file := Some rules\<rparr>\<rparr>"

text \<open>
  A monitor after 51 activities logged one second apart under a threshold of 50: the last
  call finds 51 entries in the hour and records one suspicious activity.
\<close>

definition busy_monitor :: monitor where
  "busy_monitor =
     log_all (map (like_call_under (rules_with_threshold 50)) [0..<51])
       (SafetyMonitor_init Absent True)"


text \<open>A server that answers every request with status 404.\<close>

definition not_found :: transport where
  "not_found m k = Returns \<lparr>status_code = 404, content = ''Not Found'', json_result = Parsed JNull\<rparr>"

text \<open>A server that answers 503 twice and then 200 with an empty body.\<close>

definition recovering :: transport where
  "recovering m k =
     Returns \<lparr>status_code = (if k < 2 then 503 else 200), content = [],
              json_result = Parsed JNull\<rparr>"


text \<open>
  A batch of three actions: a Facebook like whose simulation fails (draw 0.95), an action for
  a platform the client does not know, and an Instagram like that succeeds (draw 0.5).
\<close>

definition example_batch_env :: "nat \<Rightarrow> batch_env" where
  "example_batch_env i =
     \<lparr>sim = \<lparr>random_draw = (if i = 0 then 95 / 100 else 1 / 2), unix_time = 1700000000 + int i,
              iso_now = seconds (int i), response_time = 2\<rparr>,
      entry_now = seconds (int i)\<rparr>"

definition example_batch :: "action list" where
  "example_batch =
     [\<lparr>platform = Some ''facebook'', action_type = Some ''like'',
       target_url = Some ''https://facebook.com/post/1'', access_token = Some ''token1''\<rparr>,
      \<lparr>platform = Some ''tiktok'', action_type = Some ''like'',
       target_url = None, access_token = None\<rparr>,
      \<lparr>platform = Some ''instagram'', action_type = Some ''like'',
       target_url = Some ''https://instagram.com/p/1'', access_token = Some ''token2''\<rparr>]"


text \<open>
  Tasks on a world that lists what has been done: one that succeeds and one that raises. Each
  is registered alone with an interval of 30 minutes.
\<close>

definition sync_task :: "string list \<Rightarrow> string option \<times> string list" where
  "sync_task w = (None, w @ [''synced''])"

definition failing_task :: "string list \<Rightarrow> string option \<times> string list" where
  "failing_task w = (Some ''connection refused'', w)"

definition sync_scheduler :: "string list scheduler" where
  "sync_scheduler = fst (add_task ''sync'' sync_task 30 AutomationScheduler_init)"

definition failing_scheduler :: "string list scheduler" where
  "failing_scheduler = fst (add_task ''upload'' failing_task 30 AutomationScheduler_init)"

definition noon :: time where
  "noon = seconds (12 * 3600)"

text \<open>The task \<open>sync\<close>, last run 31 minutes before noon.\<close>

definition stale_sync :: "string list task" where
  "stale_sync = \<lparr>name = ''sync'', function = sync_task, interval = 30,
                  last_run = Some (noon - seconds (31 * 60))\<rparr>"

text \<open>A scheduler with two tasks: \<open>upload\<close>, which raises, and then the stale \<open>sync\<close>.\<close>

definition mixed_scheduler :: "string list scheduler" where
  "mixed_scheduler =
     AutomationScheduler_init
       \<lparr>tasks := [\<lparr>name = ''upload'', function = failing_task, interval = 30, last_run = None\<rparr>,
                  stale_sync]\<rparr>"


text \<open>
  The scheduler with the task \<open>sync\<close>, running; the break rule of the default configuration;
  an iteration of the loop in which every clock reading is \<open>t\<close>, the configuration file is
  missing and nobody calls \<^verbatim>\<open>stop()\<close>.
\<close>

definition running_sync :: "string list scheduler" where
  "running_sync = sync_scheduler\<lparr>is_running := True\<rparr>"

definition hourly_break :: break_rule where
  "hourly_break = \<lparr>after_minutes = 60, break_minutes = 15, enabled = True\<rparr>"

definition tick_at :: "time \<Rightarrow> tick_env" where
  "tick_at t =
     \<lparr>config_file = None, hours_now = t, break_now = t, stop_in_break = None,
      break_end_now = t, restart_now = t, tasks_hours_now = t, tasks_now = t,
      stop_in_sleep = False\<rparr>"

text \<open>
  A monitor after eleven likes logged one second apart from noon on, under the default rules
  (threshold 10, suspension on detection): the eleventh call detects the high frequency and
  triggers the safety protocol.
\<close>

definition like_call_at :: "time \<Rightarrow> log_call" where
  "like_call_at t =
     \<lparr>call_env = \<lparr>stamp_now = t, rules_file = None, check_clock = steady_clock t\<rparr>,
      call_type = ''like'', call_platform = ''facebook'', call_details = ''post''\<rparr>"

definition suspended_monitor :: monitor where
  "suspended_monitor =
     log_all (map (\<lambda>i. like_call_at (noon + seconds (int i))) [0..<11])
       (SafetyMonitor_init Absent True)"


section \<open>Properties of the safety monitor\<close>

subsection \<open>The log after a call\<close>

lemma safety_log_save [simp]: "safety_log (snd (save_safety_event ev m)) = safety_log m"
  by (simp add: save_safety_event_def split: events_file.split)

lemma suspicious_save [simp]:
  "suspicious_activities (snd (save_safety_event ev m)) = suspicious_activities m"
  by (simp add: save_safety_event_def split: events_file.split)

lemma safety_log_trigger [simp]: "safety_log (snd (trigger_safety_protocol t m)) = safety_log m"
  by (simp add: trigger_safety_protocol_def Let_def)

lemma suspicious_trigger [simp]:
  "suspicious_activities (snd (trigger_safety_protocol t m)) = suspicious_activities m"
  by (simp add: trigger_safety_protocol_def Let_def)

lemma safety_log_check [simp]:
  "safety_log (snd (check_suspicious_activity rules clk a m)) = safety_log m"
  by (simp add: check_suspicious_activity_def Let_def split: option.split)

lemma safety_log_log_activity:
  "safety_log (snd (log_activity env ty pf det m)) =
     (if length (safety_log m) + 1 > 1000
      then last_n 1000 (safety_log m @ [new_activity env ty pf det])
      else safety_log m @ [new_activity env ty pf det])"
  by (simp add: log_activity_def Let_def)

lemma last_n_short: "length xs \<le> n \<Longrightarrow> last_n n xs = xs"
  by (simp add: last_n_def)

lemma length_last_n [simp]: "length (last_n n xs) = min n (length xs)"
  by (simp add: last_n_def)

lemma last_n_append_last_n:
  "last_n n (last_n n xs @ ys) = last_n n (xs @ ys)"
proof -
  have "length xs + length ys - (length xs - n + n) + (length xs - n) =
        length xs + length ys - n"
    by arith
  then show ?thesis
    by (auto simp add: last_n_def)
qed

lemma safety_log_log_activity':
  "safety_log (snd (log_activity env ty pf det m)) =
      last_n 1000 (safety_log m @ [new_activity env ty pf det])"
  by (simp add: safety_log_log_activity last_n_def)

lemma log_all_log:
  "safety_log (log_all cs m) = 
     (if cs = [] then safety_log m else last_n 1000 (safety_log m @ map activity_of cs))"
proof (induction cs arbitrary: m)
  case Nil
  then show ?case by simp
next
  case (Cons c cs)
  show ?case
  proof (cases "cs = []")
    case True
    then show ?thesis by (simp add: safety_log_log_activity' activity_of_def)
  next
    case False
    then show ?thesis
      by (simp add: Cons.IH safety_log_log_activity' activity_of_def last_n_append_last_n)
  qed
qed


text \<open>
  C7. After every \<^verbatim>\<open>log_activity\<close>, from any monitor state, the activity log holds at most
  1000 entries. After \<open>N\<close> insertions into a new monitor it holds \<open>min N 1000\<close> entries; for
  \<open>N \<ge> 1000\<close> it holds exactly 1000, namely the last 1000 inserted in insertion order, so
  its oldest entry is the one inserted as number \<open>N - 999\<close> (index \<open>N - 1000\<close> counting from 0).
\<close>

theorem log_activity_ring:
  "length (safety_log (snd (log_activity env ty pf det m))) \<le> 1000 \<and>
   length (safety_log (log_all cs (SafetyMonitor_init f w))) = min (length cs) 1000 \<and>
   (1000 \<le> length cs \<longrightarrow>
      length (safety_log (log_all cs (SafetyMonitor_init f w))) = 1000 \<and>
      safety_log (log_all cs (SafetyMonitor_init f w)) =
        drop (length cs - 1000) (map activity_of cs) \<and>
      hd (safety_log (log_all cs (SafetyMonitor_init f w))) =
        activity_of (cs ! (length cs - 1000)))"
proof -
  let ?m0 = "SafetyMonitor_init f w"
  have log0: "safety_log ?m0 = []"
    by (simp add: SafetyMonitor_init_def)
  have all: "safety_log (log_all cs ?m0) = last_n 1000 (map activity_of cs)"
    by (simp add: log_all_log log0 last_n_def)
  have one: "length (safety_log (snd (log_activity env ty pf det m))) \<le> 1000"
    by (simp add: safety_log_log_activity')
  have len: "length (safety_log (log_all cs ?m0)) = min (length cs) 1000"
    by (simp add: all min.commute)
  have full: "safety_log (log_all cs ?m0) = drop (length cs - 1000) (map activity_of cs)"
    by (simp add: all last_n_def)
  have oldest: "hd (safety_log (log_all cs ?m0)) = activity_of (cs ! (length cs - 1000))"
    if "1000 \<le> length cs"
  proof -
    from that have "length cs - 1000 < length (map activity_of cs)"
      by simp
    then have "hd (drop (length cs - 1000) (map activity_of cs)) =
               map activity_of cs ! (length cs - 1000)"
      by (rule hd_drop_conv_nth)
    with that show ?thesis
      by (simp add: full)
  qed
  from one len full oldest show ?thesis
    by simp
qed

theorem log_activity_ring_witness:
  "1000 \<le> length (map like_call [0..<1001]) \<and>
   length (safety_log (log_all (map like_call [0..<1001]) (SafetyMonitor_init Absent True))) = 1000 \<and>
   hd (safety_log (log_all (map like_call [0..<1001]) (SafetyMonitor_init Absent True))) =
     activity_of (like_call 1)"
proof -
  let ?cs = "map like_call [0..<1001]"
  have big: "1000 \<le> length ?cs"
    by simp
  have idx: "?cs ! (length ?cs - 1000) = like_call 1"
    by simp
  from big log_activity_ring [of "call_env (like_call 0)" "''like''" "''facebook''" "''post''"
      "SafetyMonitor_init Absent True" ?cs Absent True]
  have "length (safety_log (log_all ?cs (SafetyMonitor_init Absent True))) = 1000"
    and "hd (safety_log (log_all ?cs (SafetyMonitor_init Absent True))) =
         activity_of (?cs ! (length ?cs - 1000))"
    by blast+
  with big show ?thesis
    by (simp only: idx)
qed

subsection \<open>Suspicious events\<close>

lemma recent_activities_all:
  assumes "\<forall>i < length entries. now i - timestamp (entries ! i) < timedelta_hours 1"
  shows "recent_activities now entries = entries"
proof -
  have "filter (\<lambda>(i, act). now i - timestamp act < timedelta_hours 1) (enumerate 0 entries) =
        enumerate 0 entries"
    using assms by (auto simp add: filter_id_conv in_set_enumerate_eq)
  then show ?thesis
    by (simp add: recent_activities_def)
qed

lemma log_all_append: "log_all (xs @ ys) m = log_all ys (log_all xs m)"
  by (induction xs arbitrary: m) simp_all



lemma suspicious_log_activity:
  "suspicious_activities (snd (log_activity env ty pf det m)) =
     (let entries = last_n 1000 (safety_log m @ [new_activity env ty pf det]);
          recent = recent_activities (filter_now (check_clock env)) entries
      in case safety_measures (load_safety_rules (rules_file env)) of
           None \<Rightarrow> suspicious_activities m
         | Some sm \<Rightarrow>
             if int (length recent) > suspicious_activity_threshold sm
             then suspicious_activities m @
                    [\<lparr>detected_at = strftime_seconds (detect_now (check_clock env)),
                      suspicious_type = ''high_frequency_activity'',
                      activities_count = length recent,
                      recommendation = ''Suspend operations temporarily''\<rparr>]
             else suspicious_activities m)"
  by (simp add: log_activity_def check_suspicious_activity_def Let_def last_n_def
      split: option.split)



lemma log_all_fresh_log:
  "length cs \<le> 1000 \<Longrightarrow>
   safety_log (log_all cs (SafetyMonitor_init f w)) = map activity_of cs"
  by (simp add: log_all_log SafetyMonitor_init_def last_n_def)

lemma within_one_hour_butlast: "within_one_hour (xs @ [c]) \<Longrightarrow> within_one_hour xs"
  unfolding within_one_hour_def
proof (intro allI impI)
  fix j i
  assume h: "\<forall>j<length (xs @ [c]). \<forall>i\<le>j.
      filter_now (check_clock (call_env ((xs @ [c]) ! j))) i
        - timestamp (activity_of ((xs @ [c]) ! i)) < timedelta_hours 1"
    and j: "j < length xs" and i: "i \<le> j"
  from j i h have "filter_now (check_clock (call_env ((xs @ [c]) ! j))) i
        - timestamp (activity_of ((xs @ [c]) ! i)) < timedelta_hours 1"
    by simp
  with j i show "filter_now (check_clock (call_env (xs ! j))) i
        - timestamp (activity_of (xs ! i)) < timedelta_hours 1"
    by (simp add: nth_append)
qed

lemma within_one_hour_last:
  assumes "within_one_hour (xs @ [c])"
  shows "recent_activities (filter_now (check_clock (call_env c))) (map activity_of (xs @ [c]))
           = map activity_of (xs @ [c])"
proof (rule recent_activities_all, intro allI impI)
  fix i
  assume "i < length (map activity_of (xs @ [c]))"
  then have i: "i \<le> length xs"
    by simp
  from assms have all: "\<And>j i. j < length (xs @ [c]) \<Longrightarrow> i \<le> j \<Longrightarrow>
      filter_now (check_clock (call_env ((xs @ [c]) ! j))) i
        - timestamp (activity_of ((xs @ [c]) ! i)) < timedelta_hours 1"
    unfolding within_one_hour_def by blast
  from all [of "length xs" i] i
  have "filter_now (check_clock (call_env c)) i
        - timestamp (activity_of ((xs @ [c]) ! i)) < timedelta_hours 1"
    by simp
  with i show "filter_now (check_clock (call_env c)) i
        - timestamp (map activity_of (xs @ [c]) ! i) < timedelta_hours 1"
    by (simp add: nth_append del: map_append)
qed

lemma suspicious_count_fresh:
  assumes "\<forall>c \<in> set cs. threshold_of c = Some th"
    and "within_one_hour cs"
    and "length cs \<le> 1000"
  shows "length (suspicious_activities (log_all cs (SafetyMonitor_init f w))) =
         length cs - nat th"
  using assms
proof (induction cs rule: rev_induct)
  case Nil
  then show ?case
    by (simp add: SafetyMonitor_init_def)
next
  case (snoc c xs)
  let ?m = "log_all xs (SafetyMonitor_init f w)"
  from snoc.prems have hour: "within_one_hour xs" and len: "length xs < 1000"
    and th: "threshold_of c = Some th" and ths: "\<forall>c \<in> set xs. threshold_of c = Some th"
    by (auto dest: within_one_hour_butlast)
  from snoc.IH ths hour len
  have IH: "length (suspicious_activities ?m) = length xs - nat th"
    by simp
  from len have log: "safety_log ?m = map activity_of xs"
    by (simp add: log_all_fresh_log)
  from th obtain sm where sm: "safety_measures (load_safety_rules (rules_file (call_env c))) = Some sm"
    and thr: "suspicious_activity_threshold sm = th"
    by (auto simp add: threshold_of_def)
  have new: "safety_log ?m @ [new_activity (call_env c) (call_type c) (call_platform c) (call_details c)]
               = map activity_of (xs @ [c])"
    by (simp add: log activity_of_def)
  have keep: "last_n 1000 (map activity_of (xs @ [c])) = map activity_of (xs @ [c])"
    using len by (simp add: last_n_def)
  have recent: "recent_activities (filter_now (check_clock (call_env c)))
                  (map activity_of (xs @ [c])) = map activity_of (xs @ [c])"
    using snoc.prems(2) by (rule within_one_hour_last)
  have "length (suspicious_activities
           (snd (log_activity (call_env c) (call_type c) (call_platform c) (call_details c) ?m))) =
        (if int (length xs + 1) > th then length (suspicious_activities ?m) + 1
         else length (suspicious_activities ?m))"
    unfolding suspicious_log_activity new keep recent Let_def sm
    by (simp add: thr)
  also have "\<dots> = length (xs @ [c]) - nat th"
    unfolding IH by (simp; arith)
  finally show ?case
    by (simp add: log_all_append)
qed

lemma suspicious_length_log_activity:
  "length (suspicious_activities (snd (log_activity env ty pf det m))) =
     length (suspicious_activities m) +
       (if breach env (snd (log_activity env ty pf det m)) then 1 else 0)"
  by (simp add: suspicious_log_activity breach_def safety_log_log_activity' Let_def
      split: option.split)

lemma like_calls_within_one_hour:
  "n \<le> 3600 \<Longrightarrow> within_one_hour (map like_call [0..<n])"
  by (auto simp add: within_one_hour_def like_call_def steady_clock_def activity_of_def
      new_activity_def strftime_seconds_def seconds_def timedelta_hours_def)

lemma like_calls_threshold: "threshold_of (like_call i) = Some 10"
  by (simp add: threshold_of_def like_call_def load_safety_rules_def get_default_rules_def)



text \<open>
  C3 (as the code has it). Every \<^verbatim>\<open>log_activity\<close> after which the trailing one-hour count
  exceeds the threshold appends one suspicious activity, and a call that does not exceed it
  appends none. So \<open>threshold + k\<close> insertions within one hour into a new monitor (at most
  1000 in all) leave \<open>k\<close> suspicious activities: one for each entry beyond the threshold.
\<close>

theorem suspicious_event_per_insertion:
  "length (suspicious_activities (snd (log_activity env ty pf det m))) =
     length (suspicious_activities m) +
       (if breach env (snd (log_activity env ty pf det m)) then 1 else 0) \<and>
   ((\<forall>c \<in> set cs. threshold_of c = Some th) \<and> within_one_hour cs \<and> length cs \<le> 1000 \<longrightarrow>
      length (suspicious_activities (log_all cs (SafetyMonitor_init f w))) = length cs - nat th)"
  using suspicious_length_log_activity [of env ty pf det m]
    suspicious_count_fresh [of cs th f w]
  by blast

theorem suspicious_event_per_insertion_witness:
  "list_all (\<lambda>c. threshold_of c = Some 10) (map like_call [0..<13]) \<and>
   within_one_hour (map like_call [0..<13]) \<and>
   length (map like_call [0..<13]) \<le> 1000 \<and>
   length (suspicious_activities (log_all (map like_call [0..<13]) (SafetyMonitor_init Absent True))) = 3"
proof -
  let ?cs = "map like_call [0..<13]"
  have th: "\<forall>c \<in> set ?cs. threshold_of c = Some 10"
    by (auto simp add: like_calls_threshold)
  have hour: "within_one_hour ?cs"
    by (rule like_calls_within_one_hour) simp
  have len: "length ?cs \<le> 1000"
    by simp
  from th hour len
    suspicious_event_per_insertion [of "call_env (like_call 0)" "''like''" "''facebook''" "''post''"
      "SafetyMonitor_init Absent True" ?cs 10 Absent True]
  have "length (suspicious_activities (log_all ?cs (SafetyMonitor_init Absent True))) =
        length ?cs - nat 10"
    by blast
  with th hour len show ?thesis
    by (simp add: list_all_iff)
qed



text \<open>
  C3 as stated fails. Twelve activities one second apart under the default threshold of 10
  cross the threshold once, and the code records two suspicious activities.
\<close>

theorem one_event_per_crossing_counterexample:
  "list_all (\<lambda>c. threshold_of c = Some 10) (map like_call [0..<12]) \<and>
   within_one_hour (map like_call [0..<12]) \<and>
   length (suspicious_activities
     (log_all (map like_call [0..<12]) (SafetyMonitor_init Absent True))) = 2 \<and>
   length (suspicious_activities
     (log_all (map like_call [0..<12]) (SafetyMonitor_init Absent True))) \<noteq> 1"
proof -
  have "list_all (\<lambda>c. threshold_of c = Some 10) (map like_call [0..<12])"
    by (simp add: list_all_iff like_calls_threshold)
  moreover have "within_one_hour (map like_call [0..<12])"
    by (rule like_calls_within_one_hour) simp
  moreover have "length (suspicious_activities
     (log_all (map like_call [0..<12]) (SafetyMonitor_init Absent True))) = 2"
    by code_simp
  ultimately show ?thesis
    by simp
qed




subsection \<open>The status of the safety report\<close>

lemma safety_status_report:
  "safety_status (get_safety_report now clk m) =
     (if length (recent_activities clk (safety_log m)) > 50 then ''high_activity''
      else if suspicious_activities m \<noteq> [] then ''attention_required''
      else ''normal'')"
  by (simp add: get_safety_report_def Let_def)

text \<open>
  C4 (as the code has it). The status is \<open>high_activity\<close> whenever more than 50 entries of
  the log are less than one hour old, whether or not suspicious activities exist; otherwise
  \<open>attention_required\<close> when suspicious activities exist; otherwise \<open>normal\<close>.
\<close>

theorem safety_status_priority:
  "safety_status (get_safety_report now clk m) =
     (if length (recent_activities clk (safety_log m)) > 50 then ''high_activity''
      else if suspicious_activities m \<noteq> [] then ''attention_required''
      else ''normal'')"
  by (rule safety_status_report)

lemma like_calls_under_within_one_hour:
  "n \<le> 3600 \<Longrightarrow> within_one_hour (map (like_call_under r) [0..<n])"
  by (auto simp add: within_one_hour_def like_call_under_def like_call_def steady_clock_def
      activity_of_def new_activity_def strftime_seconds_def seconds_def timedelta_hours_def)

lemma like_calls_under_threshold:
  "threshold_of (like_call_under (rules_with_threshold th) i) = Some th"
  by (simp add: threshold_of_def like_call_under_def load_safety_rules_def
      rules_with_threshold_def)

lemma busy_monitor_suspicious: "length (suspicious_activities busy_monitor) = 1"
proof -
  let ?cs = "map (like_call_under (rules_with_threshold 50)) [0..<51]"
  have "\<forall>c \<in> set ?cs. threshold_of c = Some 50"
    by (auto simp add: like_calls_under_threshold)
  moreover have "within_one_hour ?cs"
    by (rule like_calls_under_within_one_hour) simp
  moreover have "length ?cs \<le> 1000"
    by simp
  ultimately have "length (suspicious_activities (log_all ?cs (SafetyMonitor_init Absent True))) =
      length ?cs - nat 50"
    by (rule suspicious_count_fresh)
  then show ?thesis
    by (simp add: busy_monitor_def)
qed

lemma busy_monitor_recent:
  "length (recent_activities (\<lambda>i. seconds 60) (safety_log busy_monitor)) = 51"
proof -
  let ?cs = "map (like_call_under (rules_with_threshold 50)) [0..<51]"
  have log: "safety_log busy_monitor = map activity_of ?cs"
    unfolding busy_monitor_def by (rule log_all_fresh_log) simp
  have "recent_activities (\<lambda>i. seconds 60) (map activity_of ?cs) = map activity_of ?cs"
    by (rule recent_activities_all)
      (auto simp add: like_call_under_def like_call_def activity_of_def new_activity_def
        strftime_seconds_def seconds_def timedelta_hours_def)
  then show ?thesis
    by (simp add: log)
qed



text \<open>
  C4 as stated fails. The monitor with one suspicious activity and 51 entries in the hour
  reports \<open>high_activity\<close>, not \<open>attention_required\<close>.
\<close>

theorem attention_required_counterexample:
  "suspicious_activities busy_monitor \<noteq> [] \<and>
   safety_status (get_safety_report (seconds 60) (\<lambda>i. seconds 60) busy_monitor) =
     ''high_activity'' \<and>
   safety_status (get_safety_report (seconds 60) (\<lambda>i. seconds 60) busy_monitor) \<noteq>
     ''attention_required''"
proof -
  from busy_monitor_suspicious have "suspicious_activities busy_monitor \<noteq> []"
    by auto
  moreover have "safety_status (get_safety_report (seconds 60) (\<lambda>i. seconds 60) busy_monitor) =
     ''high_activity''"
    by (simp add: safety_status_report busy_monitor_recent)
  ultimately show ?thesis
    by simp
qed



section \<open>Properties of the API client\<close>

subsection \<open>Failed responses and retries\<close>

lemma attempt_body_failed_response:
  assumes "dispatch_method method = Some m" and "tr m attempt = Returns r" and "\<not> ok_status r"
  shows "attempt_body tr method retries attempt prev eff =
         Next_attempt (Some r) (backoff retries attempt (eff\<lparr>http_calls := http_calls eff + 1\<rparr>))"
  using assms by (auto simp add: attempt_body_def ok_status_def Let_def)

lemma request_loop_failed_responses:
  assumes m: "dispatch_method method = Some m"
    and resp: "\<forall>k. attempt \<le> k \<and> k < attempt + left \<longrightarrow> tr m k = Returns (resp k) \<and> \<not> ok_status (resp k)"
    and total: "int (attempt + left) = retries"
    and left: "0 < left"
  shows "request_loop tr method retries attempt left prev eff =
         ((False, Failed_after retries (status_code (resp (attempt + left - 1)))),
          \<lparr>http_calls = http_calls eff + left,
           sleeps = sleeps eff @ map (\<lambda>k. 2 ^ k) [attempt..<attempt + left - 1]\<rparr>)"
  using resp total left
proof (induction left arbitrary: attempt prev eff)
  case 0
  then show ?case by simp
next
  case (Suc left)
  from Suc.prems(1) have here: "tr m attempt = Returns (resp attempt)" "\<not> ok_status (resp attempt)"
    by simp_all
  let ?eff = "backoff retries attempt (eff\<lparr>http_calls := http_calls eff + 1\<rparr>)"
  have step: "request_loop tr method retries attempt (Suc left) prev eff =
              request_loop tr method retries (Suc attempt) left (Some (resp attempt)) ?eff"
    using m here
    by (simp add: attempt_body_failed_response [where m = m and r = "resp attempt"])
  show ?case
  proof (cases left)
    case 0
    with Suc.prems(2) have "\<not> int attempt < retries - 1"
      by simp
    then have "?eff = eff\<lparr>http_calls := http_calls eff + 1\<rparr>"
      by (simp add: backoff_def)
    with 0 show ?thesis
      unfolding step by simp
  next
    case (Suc n)
    with Suc.prems(2) have more: "int attempt < retries - 1"
      by simp
    have "request_loop tr method retries (Suc attempt) left (Some (resp attempt)) ?eff =
          ((False, Failed_after retries (status_code (resp (Suc attempt + left - 1)))),
           \<lparr>http_calls = http_calls ?eff + left,
            sleeps = sleeps ?eff @ map (\<lambda>k. 2 ^ k) [Suc attempt..<Suc attempt + left - 1]\<rparr>)"
      using Suc.prems Suc by (intro Suc.IH) simp_all
    moreover have "[attempt..<attempt + Suc left - 1] = attempt # [Suc attempt..<Suc attempt + left - 1]"
      using Suc by (simp add: upt_rec)
    moreover from more have "?eff = eff\<lparr>http_calls := http_calls eff + 1,
        sleeps := sleeps eff @ [2 ^ attempt]\<rparr>"
      by (simp add: backoff_def)
    ultimately show ?thesis
      unfolding step by simp
  qed
qed

lemma make_request_unsupported:
  assumes "dispatch_method method = None" and "1 \<le> retries"
  shows "make_request tr method retries =
         ((False, Unsupported_method method), \<lparr>http_calls = 0, sleeps = []\<rparr>)"
proof -
  from assms(2) obtain n where "nat retries = Suc n"
    by (cases "nat retries") simp_all
  with assms(1) show ?thesis
    by (simp add: make_request_def attempt_body_def)
qed

lemma attempt_body_effects:
  "(case attempt_body tr meth retries attempt prev eff of
      Return res e \<Rightarrow> http_calls eff \<le> http_calls e \<and> sleeps e = sleeps eff
    | Next_attempt p e \<Rightarrow>
        http_calls e = http_calls eff + 1 \<and> take (length (sleeps eff)) (sleeps e) = sleeps eff)"
  by (auto simp add: attempt_body_def backoff_def Let_def
      split: option.split http_outcome.split json_outcome.split)

lemma attempt_body_supported:
  "dispatch_method meth = Some m \<Longrightarrow>
   (case attempt_body tr meth retries attempt prev eff of
      Return res e \<Rightarrow> http_calls e = http_calls eff + 1
    | Next_attempt p e \<Rightarrow> http_calls e = http_calls eff + 1)"
  by (auto simp add: attempt_body_def backoff_def Let_def
      split: option.split http_outcome.split json_outcome.split)

lemma request_loop_effects:
  "http_calls eff \<le> http_calls (snd (request_loop tr meth retries attempt left prev eff)) \<and>
   take (length (sleeps eff)) (sleeps (snd (request_loop tr meth retries attempt left prev eff)))
     = sleeps eff"
proof (induction left arbitrary: attempt prev eff)
  case 0
  then show ?case
    by (simp split: option.split)
next
  case (Suc left)
  show ?case
  proof (cases "attempt_body tr meth retries attempt prev eff")
    case (Return res e)
    with attempt_body_effects [where tr = tr and meth = meth and retries = retries
        and attempt = attempt and prev = prev and eff = eff] show ?thesis
      by simp
  next
    case (Next_attempt p e)
    with attempt_body_effects [where tr = tr and meth = meth and retries = retries
        and attempt = attempt and prev = prev and eff = eff]
    have e: "http_calls e = http_calls eff + 1" "take (length (sleeps eff)) (sleeps e) = sleeps eff"
      by simp_all
    from Suc.IH [where eff = e and attempt = "Suc attempt" and prev = p]
    have calls: "http_calls e \<le> http_calls (snd (request_loop tr meth retries (Suc attempt) left p e))"
      and pre: "take (length (sleeps e))
          (sleeps (snd (request_loop tr meth retries (Suc attempt) left p e))) = sleeps e"
      by simp_all
    from e(2) have "length (take (length (sleeps eff)) (sleeps e)) = length (sleeps eff)"
      by simp
    then have "length (sleeps eff) \<le> length (sleeps e)"
      by simp
    then have "take (length (sleeps eff))
          (sleeps (snd (request_loop tr meth retries (Suc attempt) left p e))) =
        take (length (sleeps eff)) (take (length (sleeps e))
          (sleeps (snd (request_loop tr meth retries (Suc attempt) left p e))))"
      by (simp add: min_absorb1)
    with pre e(2) have "take (length (sleeps eff))
          (sleeps (snd (request_loop tr meth retries (Suc attempt) left p e))) = sleeps eff"
      by simp
    with calls e(1) Next_attempt show ?thesis
      by simp
  qed
qed

lemma request_loop_calls_once:
  assumes "dispatch_method meth = Some m" and "0 < left"
  shows "http_calls eff + 1 \<le>
         http_calls (snd (request_loop tr meth retries attempt left prev eff))"
proof -
  from assms(2) obtain l where left: "left = Suc l"
    by (cases left) simp_all
  show ?thesis
  proof (cases "attempt_body tr meth retries attempt prev eff")
    case (Return res e)
    with attempt_body_supported [OF assms(1), where tr = tr and retries = retries
        and attempt = attempt and prev = prev and eff = eff] left show ?thesis
      by simp
  next
    case (Next_attempt p e)
    with attempt_body_supported [OF assms(1), where tr = tr and retries = retries
        and attempt = attempt and prev = prev and eff = eff]
    have "http_calls e = http_calls eff + 1"
      by simp
    with request_loop_effects [where eff = e and tr = tr and meth = meth
        and retries = retries and attempt = "Suc attempt" and left = l and prev = p]
      Next_attempt left
    show ?thesis
      by simp
  qed
qed

lemma request_loop_skip_failed:
  assumes m: "dispatch_method meth = Some m"
    and resp: "\<forall>k. attempt \<le> k \<and> k < attempt + n \<longrightarrow>
                 tr m k = Returns (resp k) \<and> \<not> ok_status (resp k)"
    and left: "n \<le> left"
    and more: "int (attempt + n) < retries"
  shows "\<exists>prev'. request_loop tr meth retries attempt left prev eff =
           request_loop tr meth retries (attempt + n) (left - n) prev'
             \<lparr>http_calls = http_calls eff + n,
              sleeps = sleeps eff @ map (\<lambda>k. 2 ^ k) [attempt..<attempt + n]\<rparr>"
  using resp left more
proof (induction n arbitrary: attempt left prev eff)
  case 0
  show ?case
    by (intro exI [of _ prev], cases eff) simp
next
  case (Suc n)
  from Suc.prems(2) obtain l where l: "left = Suc l" and nl: "n \<le> l"
    by (cases left) simp_all
  from Suc.prems(1) have here: "tr m attempt = Returns (resp attempt)" "\<not> ok_status (resp attempt)"
    by simp_all
  from Suc.prems(3) have "int attempt < retries - 1"
    by simp
  then have eff: "backoff retries attempt (eff\<lparr>http_calls := http_calls eff + 1\<rparr>) =
      \<lparr>http_calls = http_calls eff + 1, sleeps = sleeps eff @ [2 ^ attempt]\<rparr>"
    by (simp add: backoff_def)
  have "request_loop tr meth retries attempt (Suc l) prev eff =
        request_loop tr meth retries (Suc attempt) l (Some (resp attempt))
          (backoff retries attempt (eff\<lparr>http_calls := http_calls eff + 1\<rparr>))"
    using m here
    by (simp add: attempt_body_failed_response [where m = m and r = "resp attempt"])
  then have step: "request_loop tr meth retries attempt (Suc l) prev eff =
              request_loop tr meth retries (Suc attempt) l (Some (resp attempt))
                \<lparr>http_calls = http_calls eff + 1, sleeps = sleeps eff @ [2 ^ attempt]\<rparr>"
    by (simp only: eff)
  from Suc.prems(1) have "\<forall>k. Suc attempt \<le> k \<and> k < Suc attempt + n \<longrightarrow>
      tr m k = Returns (resp k) \<and> \<not> ok_status (resp k)"
    by simp
  moreover from Suc.prems(3) have "int (Suc attempt + n) < retries"
    by simp
  ultimately obtain prev' where
    "request_loop tr meth retries (Suc attempt) l (Some (resp attempt))
       \<lparr>http_calls = http_calls eff + 1, sleeps = sleeps eff @ [2 ^ attempt]\<rparr> =
     request_loop tr meth retries (Suc attempt + n) (l - n) prev'
       \<lparr>http_calls = http_calls \<lparr>http_calls = http_calls eff + 1, sleeps = sleeps eff @ [2 ^ attempt]\<rparr> + n,
        sleeps = sleeps \<lparr>http_calls = http_calls eff + 1, sleeps = sleeps eff @ [2 ^ attempt]\<rparr> @
                 map (\<lambda>k. 2 ^ k) [Suc attempt..<Suc attempt + n]\<rparr>"
    using Suc.IH [OF _ nl] by blast
  moreover have "[attempt..<attempt + Suc n] = attempt # [Suc attempt..<Suc attempt + n]"
    by (simp add: upt_rec)
  ultimately show ?case
    unfolding l step by (intro exI [of _ prev']) simp
qed

lemma make_request_retries_failed:
  assumes m: "dispatch_method meth = Some m"
    and n: "int n < retries"
    and resp: "\<forall>k < n. tr m k = Returns (resp k) \<and> \<not> ok_status (resp k)"
  shows "n + 1 \<le> http_calls (snd (make_request tr meth retries))"
    and "take n (sleeps (snd (make_request tr meth retries))) = map (\<lambda>k. 2 ^ k) [0..<n]"
proof -
  let ?eff = "\<lparr>http_calls = 0 + n, sleeps = [] @ map (\<lambda>k. 2 ^ k) [0..<0 + n]\<rparr>"
  from n have le: "n \<le> nat retries" and lt: "0 < nat retries - n"
    by simp_all
  from resp have "\<forall>k. 0 \<le> k \<and> k < 0 + n \<longrightarrow> tr m k = Returns (resp k) \<and> \<not> ok_status (resp k)"
    by simp
  with m le n obtain prev' where run:
    "request_loop tr meth retries 0 (nat retries) None \<lparr>http_calls = 0, sleeps = []\<rparr> =
     request_loop tr meth retries (0 + n) (nat retries - n) prev' ?eff"
    using request_loop_skip_failed [where meth = meth and m = m and attempt = 0 and n = n
        and tr = tr and resp = resp and left = "nat retries" and retries = retries
        and prev = None and eff = "\<lparr>http_calls = 0, sleeps = []\<rparr>"]
    by auto
  from request_loop_calls_once [OF m lt, where eff = ?eff and tr = tr and retries = retries
      and attempt = "0 + n" and prev = prev']
  show "n + 1 \<le> http_calls (snd (make_request tr meth retries))"
    by (simp add: make_request_def run)
  from request_loop_effects [where eff = ?eff and tr = tr and meth = meth
      and retries = retries and attempt = "0 + n" and left = "nat retries - n" and prev = prev']
  show "take n (sleeps (snd (make_request tr meth retries))) = map (\<lambda>k. 2 ^ k) [0..<n]"
    by (simp add: make_request_def run)
qed

text \<open>
  C2 (as the code has it). \<^verbatim>\<open>make_request\<close> does not tell failed responses apart: a
  response outside 2xx is retried like a timeout. For a request with a supported method:
  \<^item> when the first \<open>n\<close> attempts, \<open>n < retries\<close>, receive such responses, the client goes on:
    it makes at least \<open>n + 1\<close> HTTP calls, and its first \<open>n\<close> sleeps are of \<open>2 ^ 0\<close>, ...,
    \<open>2 ^ (n - 1)\<close> seconds;
  \<^item> when all \<open>retries \<ge> 1\<close> attempts receive such responses, the client makes exactly
    \<open>retries\<close> calls, sleeps \<open>2 ^ attempt\<close> seconds after each but the last, and only then
    returns the failure, with the status of the last response.
  A request with an unsupported method and \<open>retries \<ge> 1\<close> returns its failure with no HTTP
  call and no sleep.
\<close>

theorem failed_response_is_retried:
  "(dispatch_method method = Some m \<and> int n < retries \<and>
    (\<forall>k < n. tr m k = Returns (resp k) \<and> \<not> ok_status (resp k)) \<longrightarrow>
      n + 1 \<le> http_calls (snd (make_request tr method retries)) \<and>
      take n (sleeps (snd (make_request tr method retries))) = map (\<lambda>k. 2 ^ k) [0..<n]) \<and>
   (dispatch_method method = Some m \<and> 1 \<le> retries \<and>
    (\<forall>k < nat retries. tr m k = Returns (resp k) \<and> \<not> ok_status (resp k)) \<longrightarrow>
      make_request tr method retries =
        ((False, Failed_after retries (status_code (resp (nat retries - 1)))),
         \<lparr>http_calls = nat retries, sleeps = map (\<lambda>k. 2 ^ k) [0..<nat retries - 1]\<rparr>)) \<and>
   (dispatch_method method = None \<and> 1 \<le> retries \<longrightarrow>
      make_request tr method retries =
        ((False, Unsupported_method method), \<lparr>http_calls = 0, sleeps = []\<rparr>))"
proof (intro conjI impI)
  assume h: "dispatch_method method = Some m \<and> int n < retries \<and>
    (\<forall>k < n. tr m k = Returns (resp k) \<and> \<not> ok_status (resp k))"
  then show "n + 1 \<le> http_calls (snd (make_request tr method retries))"
    by (intro make_request_retries_failed [where m = m and resp = resp]) simp_all
  from h show "take n (sleeps (snd (make_request tr method retries))) = map (\<lambda>k. 2 ^ k) [0..<n]"
    by (intro make_request_retries_failed [where m = m and resp = resp]) simp_all
next
  assume h: "dispatch_method method = Some m \<and> 1 \<le> retries \<and>
    (\<forall>k < nat retries. tr m k = Returns (resp k) \<and> \<not> ok_status (resp k))"
  then have "request_loop tr method retries 0 (nat retries) None \<lparr>http_calls = 0, sleeps = []\<rparr> =
     ((False, Failed_after retries (status_code (resp (0 + nat retries - 1)))),
      \<lparr>http_calls = http_calls \<lparr>http_calls = 0, sleeps = []\<rparr> + nat retries,
       sleeps = sleeps \<lparr>http_calls = 0, sleeps = []\<rparr> @ map (\<lambda>k. 2 ^ k) [0..<0 + nat retries - 1]\<rparr>)"
    by (intro request_loop_failed_responses [where m = m]) simp_all
  then show "make_request tr method retries =
        ((False, Failed_after retries (status_code (resp (nat retries - 1)))),
         \<lparr>http_calls = nat retries, sleeps = map (\<lambda>k. 2 ^ k) [0..<nat retries - 1]\<rparr>)"
    by (simp add: make_request_def)
next
  assume "dispatch_method method = None \<and> 1 \<le> retries"
  then show "make_request tr method retries =
        ((False, Unsupported_method method), \<lparr>http_calls = 0, sleeps = []\<rparr>)"
    by (simp add: make_request_unsupported)
qed

theorem failed_response_is_retried_witness:
  "dispatch_method ''GET'' = Some GET \<and> int 2 < 5 \<and>
   3 \<le> http_calls (snd (make_request recovering ''GET'' 5)) \<and>
   take 2 (sleeps (snd (make_request recovering ''GET'' 5))) = [1, 2] \<and>
   make_request recovering ''GET'' 5 =
     ((True, Body (JObject [])), \<lparr>http_calls = 3, sleeps = [1, 2]\<rparr>) \<and>
   (1::int) \<le> 3 \<and>
   make_request not_found ''GET'' 3 =
     ((False, Failed_after 3 404), \<lparr>http_calls = 3, sleeps = [1, 2]\<rparr>) \<and>
   dispatch_method ''PATCH'' = None \<and>
   make_request not_found ''PATCH'' 3 =
     ((False, Unsupported_method ''PATCH''), \<lparr>http_calls = 0, sleeps = []\<rparr>)"
proof -
  let ?r = "\<lambda>k::nat. \<lparr>status_code = 404, content = ''Not Found'', json_result = Parsed JNull\<rparr>"
  let ?u = "\<lambda>k::nat. \<lparr>status_code = 503, content = [], json_result = Parsed JNull\<rparr>"
  have get: "dispatch_method ''GET'' = Some GET"
    by (simp add: dispatch_method_def upper_def)
  have patch: "dispatch_method ''PATCH'' = None"
    by (simp add: dispatch_method_def upper_def)
  have down: "\<forall>k < 2. recovering GET k = Returns (?u k) \<and> \<not> ok_status (?u k)"
    by (simp add: recovering_def ok_status_def)
  have failed: "\<forall>k < nat 3. not_found GET k = Returns (?r k) \<and> \<not> ok_status (?r k)"
    by (simp add: not_found_def ok_status_def)
  have upt: "[0..<nat 3 - 1] = [0, 1]" "[0..<2] = [0, Suc 0]"
    by (simp_all add: upt_rec)
  from get down failed_response_is_retried [of "''GET''" GET 2 5 recovering ?u]
  have zero: "3 \<le> http_calls (snd (make_request recovering ''GET'' 5))"
    "take 2 (sleeps (snd (make_request recovering ''GET'' 5))) = [1, 2]"
    by (simp_all add: upt)
  have run: "make_request recovering ''GET'' 5 =
     ((True, Body (JObject [])), \<lparr>http_calls = 3, sleeps = [1, 2]\<rparr>)"
    by (simp add: make_request_def attempt_body_def get backoff_def recovering_def
        eval_nat_numeral)
  from get failed failed_response_is_retried [of "''GET''" GET 0 3 not_found ?r]
  have "make_request not_found ''GET'' 3 =
        ((False, Failed_after 3 (status_code (?r (nat 3 - 1)))),
         \<lparr>http_calls = nat 3, sleeps = map (\<lambda>k. 2 ^ k) [0..<nat 3 - 1]\<rparr>)"
    by simp
  then have one: "make_request not_found ''GET'' 3 =
        ((False, Failed_after 3 404), \<lparr>http_calls = 3, sleeps = [1, 2]\<rparr>)"
    unfolding upt by simp
  from patch failed_response_is_retried [of "''PATCH''" GET 0 3 not_found ?r]
  have two: "make_request not_found ''PATCH'' 3 =
     ((False, Unsupported_method ''PATCH''), \<lparr>http_calls = 0, sleeps = []\<rparr>)"
    by simp
  from get patch zero run one two show ?thesis
    by simp
qed

text \<open>
  C2 as stated fails. A GET that is answered 404 every time, with \<open>retries = 3\<close>, is not
  returned after the first attempt: the code makes three calls and sleeps 1 and 2 seconds.
\<close>

theorem failed_response_not_retried_counterexample:
  "\<not> ok_status \<lparr>status_code = 404, content = ''Not Found'', json_result = Parsed JNull\<rparr> \<and>
   http_calls (snd (make_request not_found ''GET'' 3)) = 3 \<and>
   sleeps (snd (make_request not_found ''GET'' 3)) = [1, 2] \<and>
   \<not> (http_calls (snd (make_request not_found ''GET'' 3)) = 1 \<and>
      sleeps (snd (make_request not_found ''GET'' 3)) = [])"
  by (simp add: make_request_def attempt_body_def dispatch_method_def upper_def backoff_def
      not_found_def ok_status_def numeral_3_eq_3)

subsection \<open>No attempts\<close>

text \<open>
  C10. With \<open>retries \<le> 0\<close> the loop body never runs: no HTTP call is made and nothing
  sleeps. The code after the loop reads the unbound variable \<^verbatim>\<open>response\<close>; the outer handler
  catches the \<^verbatim>\<open>UnboundLocalError\<close> and the call returns \<open>False\<close> with the message
  \<^verbatim>\<open>Unexpected error: ...\<close>, whatever the method.
\<close>

theorem make_request_without_attempts:
  "retries \<le> 0 \<Longrightarrow>
   make_request tr method retries =
     ((False, Unexpected_error (UnboundLocalError ''response'')), \<lparr>http_calls = 0, sleeps = []\<rparr>) \<and>
   is_message (snd (fst (make_request tr method retries)))"
  by (simp add: make_request_def)

theorem make_request_without_attempts_witness:
  "(0::int) \<le> 0 \<and>
   make_request not_found ''GET'' 0 =
     ((False, Unexpected_error (UnboundLocalError ''response'')), \<lparr>http_calls = 0, sleeps = []\<rparr>) \<and>
   is_message (snd (fst (make_request not_found ''GET'' 0)))"
  using make_request_without_attempts [of 0 not_found "''GET''"]
  by simp


subsection \<open>Batches\<close>

lemma batch_loop_eq:
  "batch_loop env i actions results =
     results @ map (\<lambda>(k, a). batch_entry_of (env k) a) (enumerate i actions)"
  by (induction actions arbitrary: i results) simp_all

text \<open>
  C8. For every list of actions \<^verbatim>\<open>batch_execute_actions\<close> returns \<open>True\<close> with a list of
  results as long as the input, and the result at position \<open>i\<close> is the entry of the action
  at position \<open>i\<close>: it carries that action's platform and action type, and the outcome of
  \<^verbatim>\<open>execute_social_action\<close> on it. A failed action is one entry among the others: the
  actions after it are executed and reported all the same.
\<close>

theorem batch_execute_actions_outcomes:
  "\<exists>results.
     batch_execute_actions env actions = (True, Results results) \<and>
     length results = length actions \<and>
     (\<forall>i < length actions.
        results ! i = batch_entry_of (env i) (actions ! i) \<and>
        entry_platform (results ! i) = platform (actions ! i) \<and>
        entry_action_type (results ! i) = action_type (actions ! i) \<and>
        (entry_success (results ! i), entry_result (results ! i)) =
          execute_social_action (sim (env i)) (platform (actions ! i)) (action_type (actions ! i))
            (target_url (actions ! i)) (access_token (actions ! i)))"
proof -
  let ?results = "map (\<lambda>(k, a). batch_entry_of (env k) a) (enumerate 0 actions)"
  have run: "batch_execute_actions env actions = (True, Results ?results)"
    by (simp add: batch_execute_actions_def batch_loop_eq)
  have len: "length ?results = length actions"
    by simp
  have nth: "?results ! i = batch_entry_of (env i) (actions ! i)" if "i < length actions" for i
    using that by (simp add: nth_enumerate_eq)
  have fields: "entry_platform (batch_entry_of e a) = platform a \<and>
      entry_action_type (batch_entry_of e a) = action_type a \<and>
      (entry_success (batch_entry_of e a), entry_result (batch_entry_of e a)) =
        execute_social_action (sim e) (platform a) (action_type a) (target_url a) (access_token a)"
    for e a
    by (simp add: batch_entry_of_def split: prod.split)
  from run len nth fields show ?thesis
    by (intro exI [of _ ?results]) simp
qed

theorem batch_execute_actions_outcomes_witness:
  "\<exists>results.
     batch_execute_actions example_batch_env example_batch = (True, Results results) \<and>
     length results = 3 \<and>
     \<not> entry_success (results ! 0) \<and>
     \<not> entry_success (results ! 1) \<and>
     entry_success (results ! 2) \<and>
     entry_platform (results ! 2) = Some ''instagram''"
proof -
  from batch_execute_actions_outcomes [of example_batch_env example_batch]
  obtain results where run: "batch_execute_actions example_batch_env example_batch = (True, Results results)"
    and len: "length results = length example_batch"
    and each: "\<And>i. i < length example_batch \<Longrightarrow>
        results ! i = batch_entry_of (example_batch_env i) (example_batch ! i)"
    by blast
  have three: "length example_batch = 3"
    by (simp add: example_batch_def)
  have "results ! 0 = batch_entry_of (example_batch_env 0) (example_batch ! 0)"
    by (rule each) (simp add: three)
  then have first: "\<not> entry_success (results ! 0)"
    by (simp add: example_batch_def example_batch_env_def batch_entry_of_def
        execute_social_action_def simulate_facebook_action_def)
  have "results ! 1 = batch_entry_of (example_batch_env 1) (example_batch ! 1)"
    by (rule each) (simp add: three)
  then have second: "\<not> entry_success (results ! 1)"
    by (simp add: example_batch_def example_batch_env_def batch_entry_of_def
        execute_social_action_def)
  have "results ! 2 = batch_entry_of (example_batch_env 2) (example_batch ! 2)"
    by (rule each) (simp add: three)
  then have third: "entry_success (results ! 2) \<and> entry_platform (results ! 2) = Some ''instagram''"
    by (simp add: example_batch_def example_batch_env_def batch_entry_of_def
        execute_social_action_def simulate_instagram_action_def)
  from run len three first second third show ?thesis
    by simp
qed


section \<open>Properties of the scheduler\<close>

subsection \<open>Registering tasks\<close>

text \<open>
  C5 (as the code has it). \<^verbatim>\<open>add_task\<close> has no check: for every name and every interval
  it appends the new task, with no last run, to the end of the task list, which grows by one.
\<close>

theorem add_task_always_appends:
  "fst (add_task task_name task_function interval_minutes s) =
     s\<lparr>tasks := tasks s @
          [\<lparr>name = task_name, function = task_function, interval = interval_minutes,
            last_run = None\<rparr>]\<rparr> \<and>
   length (tasks (fst (add_task task_name task_function interval_minutes s))) =
     Suc (length (tasks s))"
  by (simp add: add_task_def)

text \<open>
  C5 as stated fails. A second task named \<open>sync\<close>, with interval 0, is not rejected: the
  list then holds both tasks.
\<close>

theorem add_task_rejects_counterexample:
  "map name (tasks sync_scheduler) = [''sync''] \<and>
   map name (tasks (fst (add_task ''sync'' sync_task 0 sync_scheduler))) = [''sync'', ''sync''] \<and>
   map interval (tasks (fst (add_task ''sync'' sync_task 0 sync_scheduler))) = [30, 0] \<and>
   tasks (fst (add_task ''sync'' sync_task 0 sync_scheduler)) \<noteq> tasks sync_scheduler"
  by (simp add: sync_scheduler_def add_task_def AutomationScheduler_init_def)

subsection \<open>The last run of a task\<close>

lemma run_task_last_run:
  "last_run (fst (run_task now t w)) =
     (if due now t \<and> fst (function t w) = None then Some now else last_run t)"
  by (simp add: run_task_def split: prod.split option.split)

lemma run_task_forward:
  assumes "0 \<le> interval t \<or> lr \<le> now" and "last_run t = Some lr"
  shows "\<exists>lr'. last_run (fst (run_task now t w)) = Some lr' \<and> lr \<le> lr'"
proof (cases "due now t \<and> fst (function t w) = None")
  case True
  with assms(2) have "now - lr \<ge> seconds (interval t * 60)"
    by (simp add: due_def)
  with assms(1) have "lr \<le> now"
    by (auto simp add: seconds_def)
  with True show ?thesis
    by (simp add: run_task_last_run)
next
  case False
  then have "last_run (fst (run_task now t w)) = last_run t"
    unfolding run_task_last_run by (rule if_not_P)
  with assms(2) show ?thesis
    by simp
qed

lemma run_each_Cons:
  "fst (run_each now (t # ts) w) =
     fst (run_task now t w) # fst (run_each now ts (fst (snd (run_task now t w))))"
  by (simp add: case_prod_unfold Let_def)

lemma run_each_length: "length (fst (run_each now ts w)) = length ts"
  by (induction ts arbitrary: w) (simp_all add: run_each_Cons del: run_each.simps(2))

lemma run_tasks_tasks:
  "tasks (fst (run_tasks cfg hnow now s w)) =
     (if break_mode s \<or> \<not> is_within_operational_hours cfg hnow then tasks s
      else fst (run_each now (tasks s) w))"
  by (simp add: run_tasks_def case_prod_unfold Let_def)

lemma noon_within_hours: "is_within_operational_hours None noon"
  by (simp add: is_within_operational_hours_def load_config_def get_default_config_def
      strftime_HM_def two_digits_def seconds_def noon_def)

lemma run_task_task:
  "fst (run_task now t w) =
     (if due now t \<and> fst (function t w) = None then t\<lparr>last_run := Some now\<rparr> else t)"
  by (simp add: run_task_def split: prod.split option.split)

lemma run_task_world:
  "fst (snd (run_task now t w)) = (if due now t then snd (function t w) else w)"
  by (simp add: run_task_def split: prod.split option.split)

lemma run_each_Cons_world:
  "fst (snd (run_each now (t # ts) w)) =
     fst (snd (run_each now ts (fst (snd (run_task now t w)))))"
  by (simp add: case_prod_unfold Let_def)

lemma run_each_world: "fst (snd (run_each now ts w)) = world_after now ts w"
proof (induction ts arbitrary: w)
  case Nil
  show ?case by simp
next
  case (Cons t ts)
  show ?case
    unfolding run_each_Cons_world Cons.IH by (simp add: run_task_world)
qed

lemma run_each_nth_exact:
  "i < length ts \<Longrightarrow>
   fst (run_each now ts w) ! i = fst (run_task now (ts ! i) (world_after now (take i ts) w))"
proof (induction ts arbitrary: w i)
  case Nil
  then show ?case by simp
next
  case (Cons t ts)
  show ?case
  proof (cases i)
    case 0
    then show ?thesis
      unfolding run_each_Cons by simp
  next
    case (Suc j)
    with Cons.prems have "j < length ts"
      by simp
    then have "fst (run_each now ts (fst (snd (run_task now t w)))) ! j =
        fst (run_task now (ts ! j) (world_after now (take j ts) (fst (snd (run_task now t w)))))"
      by (rule Cons.IH)
    with Suc show ?thesis
      unfolding run_each_Cons by (simp add: run_task_world)
  qed
qed

lemma run_tasks_closed:
  "break_mode s \<or> \<not> is_within_operational_hours cfg hnow \<Longrightarrow>
   run_tasks cfg hnow now s w = (s, w, [])"
  by (simp add: run_tasks_def)

lemma run_tasks_world:
  "\<not> break_mode s \<Longrightarrow> is_within_operational_hours cfg hnow \<Longrightarrow>
   fst (snd (run_tasks cfg hnow now s w)) = world_after now (tasks s) w"
  by (simp add: run_tasks_def case_prod_unfold Let_def run_each_world)

lemma run_tasks_nth:
  assumes "\<not> break_mode s" and "is_within_operational_hours cfg hnow" and "i < length (tasks s)"
  shows "tasks (fst (run_tasks cfg hnow now s w)) ! i =
     (if due now (tasks s ! i) \<and>
         fst (function (tasks s ! i) (world_after now (take i (tasks s)) w)) = None
      then (tasks s ! i)\<lparr>last_run := Some now\<rparr> else tasks s ! i)"
proof -
  from assms(1,2) have "tasks (fst (run_tasks cfg hnow now s w)) = fst (run_each now (tasks s) w)"
    by (simp add: run_tasks_tasks)
  with assms(3) show ?thesis
    by (simp add: run_each_nth_exact run_task_task)
qed

lemma run_tasks_forward:
  assumes i: "i < length (tasks s)"
    and ok: "0 \<le> interval (tasks s ! i) \<or> lr \<le> now"
    and lr: "last_run (tasks s ! i) = Some lr"
  shows "\<exists>lr'. last_run (tasks (fst (run_tasks cfg hnow now s w)) ! i) = Some lr' \<and> lr \<le> lr'"
proof (cases "break_mode s \<or> \<not> is_within_operational_hours cfg hnow")
  case True
  then have "run_tasks cfg hnow now s w = (s, w, [])"
    by (rule run_tasks_closed)
  with lr show ?thesis
    by simp
next
  case False
  then have "tasks (fst (run_tasks cfg hnow now s w)) = fst (run_each now (tasks s) w)"
    by (simp add: run_tasks_tasks)
  with i have "tasks (fst (run_tasks cfg hnow now s w)) ! i =
      fst (run_task now (tasks s ! i) (world_after now (take i (tasks s)) w))"
    by (simp add: run_each_nth_exact)
  with run_task_forward [OF ok lr, of "world_after now (take i (tasks s)) w"] show ?thesis
    by simp
qed

text \<open>
  C6 (as the code has it). A tick (\<^verbatim>\<open>run_tasks\<close>) in break mode or outside the operational
  hours changes nothing. Otherwise it goes through the tasks in order, and the task at each
  position comes out with its last run set to the current time exactly when it is due and
  its function returns normally in the world the tasks before it have left; a task that is
  not due, or whose function raises, comes out as it went in, its last run unchanged. The
  world after the tick is the one the due tasks leave. A tick keeps the number of tasks. When
  the interval of a task is not negative (or the clock has not gone back behind its last
  run), a last run that is set stays set and does not move back.
\<close>

theorem last_run_after_tick:
  "(break_mode s \<or> \<not> is_within_operational_hours cfg hnow \<longrightarrow>
      run_tasks cfg hnow now s w = (s, w, [])) \<and>
   (\<not> break_mode s \<and> is_within_operational_hours cfg hnow \<longrightarrow>
      fst (snd (run_tasks cfg hnow now s w)) = world_after now (tasks s) w \<and>
      (\<forall>i < length (tasks s).
         tasks (fst (run_tasks cfg hnow now s w)) ! i =
           (if due now (tasks s ! i) \<and>
               fst (function (tasks s ! i) (world_after now (take i (tasks s)) w)) = None
            then (tasks s ! i)\<lparr>last_run := Some now\<rparr> else tasks s ! i))) \<and>
   length (tasks (fst (run_tasks cfg hnow now s w))) = length (tasks s) \<and>
   (\<forall>i < length (tasks s). \<forall>lr.
      (0 \<le> interval (tasks s ! i) \<or> lr \<le> now) \<and> last_run (tasks s ! i) = Some lr \<longrightarrow>
      (\<exists>lr'. last_run (tasks (fst (run_tasks cfg hnow now s w)) ! i) = Some lr' \<and> lr \<le> lr'))"
proof (intro conjI allI impI)
  assume "break_mode s \<or> \<not> is_within_operational_hours cfg hnow"
  then show "run_tasks cfg hnow now s w = (s, w, [])"
    by (rule run_tasks_closed)
next
  assume "\<not> break_mode s \<and> is_within_operational_hours cfg hnow"
  then show "fst (snd (run_tasks cfg hnow now s w)) = world_after now (tasks s) w"
    by (simp add: run_tasks_world)
next
  fix i
  assume "\<not> break_mode s \<and> is_within_operational_hours cfg hnow" and "i < length (tasks s)"
  then show "tasks (fst (run_tasks cfg hnow now s w)) ! i =
           (if due now (tasks s ! i) \<and>
               fst (function (tasks s ! i) (world_after now (take i (tasks s)) w)) = None
            then (tasks s ! i)\<lparr>last_run := Some now\<rparr> else tasks s ! i)"
    by (intro run_tasks_nth) simp_all
next
  show "length (tasks (fst (run_tasks cfg hnow now s w))) = length (tasks s)"
    by (simp add: run_tasks_tasks run_each_length)
next
  fix i lr
  assume "i < length (tasks s)"
    and "(0 \<le> interval (tasks s ! i) \<or> lr \<le> now) \<and> last_run (tasks s ! i) = Some lr"
  then show "\<exists>lr'. last_run (tasks (fst (run_tasks cfg hnow now s w)) ! i) = Some lr' \<and> lr \<le> lr'"
    by (intro run_tasks_forward) simp_all
qed

theorem last_run_after_tick_witness:
  "\<not> break_mode mixed_scheduler \<and> is_within_operational_hours None noon \<and>
   length (tasks (fst (run_tasks None noon noon mixed_scheduler []))) = 2 \<and>
   last_run (tasks (fst (run_tasks None noon noon mixed_scheduler [])) ! 0) = None \<and>
   last_run (tasks (fst (run_tasks None noon noon mixed_scheduler [])) ! 1) = Some noon \<and>
   fst (snd (run_tasks None noon noon mixed_scheduler [])) = [''synced''] \<and>
   last_run (tasks mixed_scheduler ! 1) = Some (noon - seconds (31 * 60)) \<and>
   0 \<le> interval (tasks mixed_scheduler ! 1) \<and>
   noon - seconds (31 * 60) \<le> noon \<and>
   break_mode (mixed_scheduler\<lparr>break_mode := True\<rparr>) \<and>
   run_tasks None noon noon (mixed_scheduler\<lparr>break_mode := True\<rparr>) [] =
     (mixed_scheduler\<lparr>break_mode := True\<rparr>, [], [])"
proof -
  note open_gate = last_run_after_tick [where s = mixed_scheduler and cfg = None
      and hnow = noon and now = noon and w = "[]"]
  note closed_gate = last_run_after_tick [where s = "mixed_scheduler\<lparr>break_mode := True\<rparr>"
      and cfg = None and hnow = noon and now = noon and w = "[]"]
  have tasks: "tasks mixed_scheduler =
      [\<lparr>name = ''upload'', function = failing_task, interval = 30, last_run = None\<rparr>, stale_sync]"
    and mode: "\<not> break_mode mixed_scheduler"
    by (simp_all add: mixed_scheduler_def AutomationScheduler_init_def)
  have stale: "last_run stale_sync = Some (noon - seconds (31 * 60))" "interval stale_sync = 30"
    "function stale_sync = sync_task" "due noon stale_sync"
    by (simp_all add: stale_sync_def due_def seconds_def)
  from open_gate mode noon_within_hours
  have world: "fst (snd (run_tasks None noon noon mixed_scheduler [])) =
      world_after noon (tasks mixed_scheduler) []"
    and each: "\<And>i. i < length (tasks mixed_scheduler) \<Longrightarrow>
      tasks (fst (run_tasks None noon noon mixed_scheduler [])) ! i =
        (if due noon (tasks mixed_scheduler ! i) \<and>
            fst (function (tasks mixed_scheduler ! i)
                  (world_after noon (take i (tasks mixed_scheduler)) [])) = None
         then (tasks mixed_scheduler ! i)\<lparr>last_run := Some noon\<rparr>
         else tasks mixed_scheduler ! i)"
    and len: "length (tasks (fst (run_tasks None noon noon mixed_scheduler []))) =
      length (tasks mixed_scheduler)"
    by blast+
  have upload: "due noon \<lparr>name = ''upload'', function = failing_task, interval = 30,
      last_run = None\<rparr>"
    by (simp add: due_def)
  from each [of 0] have first: "last_run (tasks (fst (run_tasks None noon noon mixed_scheduler [])) ! 0) = None"
    by (simp add: tasks failing_task_def)
  from each [of 1] have second: "last_run (tasks (fst (run_tasks None noon noon mixed_scheduler [])) ! 1) = Some noon"
    by (simp add: tasks stale upload failing_task_def sync_task_def)
  from world have w: "fst (snd (run_tasks None noon noon mixed_scheduler [])) = [''synced'']"
    by (simp add: tasks stale upload failing_task_def sync_task_def)
  from closed_gate have closed: "run_tasks None noon noon (mixed_scheduler\<lparr>break_mode := True\<rparr>) [] =
     (mixed_scheduler\<lparr>break_mode := True\<rparr>, [], [])"
    by simp
  from mode noon_within_hours len first second w closed show ?thesis
    by (simp add: tasks stale seconds_def)
qed

text \<open>
  C6 as stated fails. A due task whose function raises is reported as failed, and its last
  run stays unset instead of becoming the current time.
\<close>

theorem failed_task_last_run_counterexample:
  "map last_run (tasks failing_scheduler) = [None] \<and>
   snd (snd (run_tasks None noon noon failing_scheduler [])) =
     [Print_running_task ''upload'', Print_task_failed ''upload'' ''connection refused''] \<and>
   map last_run (tasks (fst (run_tasks None noon noon failing_scheduler []))) = [None] \<and>
   map last_run (tasks (fst (run_tasks None noon noon failing_scheduler []))) \<noteq> [Some noon]"
  by (simp add: run_tasks_def noon_within_hours failing_scheduler_def add_task_def
      AutomationScheduler_init_def run_task_def due_def failing_task_def)


subsection \<open>A stop during a break\<close>

lemma dispatched_append [simp]: "dispatched (xs @ ys) = dispatched xs @ dispatched ys"
  by (induction xs rule: dispatched.induct) simp_all

lemma countdown_not_running:
  "\<not> is_running s \<Longrightarrow> countdown stop_in slept n s = (s, [])"
  by (cases n) simp_all

lemma countdown_stopped:
  assumes "is_running s" and "slept \<le> k" and "k < slept + n"
  shows "fst (countdown (Some k) slept n s) = s\<lparr>is_running := False\<rparr> \<and>
         length (filter is_sleep (snd (countdown (Some k) slept n s))) = Suc (k - slept)"
  using assms
proof (induction n arbitrary: slept s)
  case 0
  then show ?case by simp
next
  case (Suc n)
  show ?case
  proof (cases "k = slept")
    case True
    have "countdown (Some k) (Suc slept) n (s\<lparr>is_running := False\<rparr>) = (s\<lparr>is_running := False\<rparr>, [])"
      by (rule countdown_not_running) simp
    with True Suc.prems(1) show ?thesis
      by (simp add: sleeping_def stop_def)
  next
    case False
    with Suc.prems have "Suc slept \<le> k" and "k < Suc slept + n"
      by simp_all
    with Suc.IH [of s "Suc slept"] Suc.prems(1)
    have "fst (countdown (Some k) (Suc slept) n s) = s\<lparr>is_running := False\<rparr> \<and>
         length (filter is_sleep (snd (countdown (Some k) (Suc slept) n s))) = Suc (k - Suc slept)"
      by simp
    moreover from False Suc.prems(2) have "Suc (Suc (k - Suc slept)) = Suc (k - slept)"
      by simp
    ultimately show ?thesis
      using False Suc.prems(1) by (simp add: sleeping_def case_prod_unfold)
  qed
qed

lemma take_break_stopped:
  assumes "is_running s" and "k < nat (break_minutes schedule)"
  shows "fst (take_break (Some k) end_now schedule s) = s\<lparr>is_running := False, break_mode := True\<rparr>"
    and "length (filter is_sleep (snd (take_break (Some k) end_now schedule s))) = Suc k"
proof -
  let ?s1 = "s\<lparr>break_mode := True\<rparr>"
  from assms have "fst (countdown (Some k) 0 (nat (break_minutes schedule)) ?s1) =
      ?s1\<lparr>is_running := False\<rparr> \<and>
    length (filter is_sleep (snd (countdown (Some k) 0 (nat (break_minutes schedule)) ?s1))) =
      Suc (k - 0)"
    by (intro countdown_stopped) simp_all
  then show "fst (take_break (Some k) end_now schedule s) = s\<lparr>is_running := False, break_mode := True\<rparr>"
    and "length (filter is_sleep (snd (take_break (Some k) end_now schedule s))) = Suc k"
    by (simp_all add: take_break_def case_prod_unfold Let_def)
qed

lemma tick_in_break_mode:
  assumes "break_mode s"
  shows "\<exists>s1. tick env (s, t0, w) = ((s1, t0, w), snd (tick env (s, t0, w))) \<and>
           break_mode s1 \<and> tasks s1 = tasks s \<and> last_break_time s1 = last_break_time s \<and>
           dispatched (snd (tick env (s, t0, w))) = []"
  using assms
  by (auto simp add: tick_def should_take_break_def run_tasks_def sleeping_def stop_def)

lemma start_loop_in_break_mode:
  assumes "break_mode s" and "dispatched evs = []"
  shows "blocked s w (start_loop envs (s, t0, w) evs)"
  using assms
proof (induction envs arbitrary: s evs)
  case Nil
  then show ?case
    by (simp add: blocked_def)
next
  case (Cons env envs)
  show ?case
  proof (cases "is_running s")
    case False
    with Cons.prems show ?thesis
      by (simp add: blocked_def)
  next
    case True
    from tick_in_break_mode [OF Cons.prems(1), of env t0 w]
    obtain s1 where t: "tick env (s, t0, w) = ((s1, t0, w), snd (tick env (s, t0, w)))"
      and s1: "break_mode s1" "tasks s1 = tasks s" "last_break_time s1 = last_break_time s"
      and none: "dispatched (snd (tick env (s, t0, w))) = []"
      by blast
    from s1(1) have "blocked s1 w (start_loop envs (s1, t0, w) (evs @ snd (tick env (s, t0, w))))"
      by (rule Cons.IH) (simp add: Cons.prems(2) none)
    with s1 have "blocked s w (start_loop envs (s1, t0, w) (evs @ snd (tick env (s, t0, w))))"
      by (simp add: blocked_def)
    moreover from t have "fst (tick env (s, t0, w)) = (s1, t0, w)"
      by (metis fst_conv)
    with True
    have "start_loop (env # envs) (s, t0, w) evs =
          start_loop envs (s1, t0, w) (evs @ snd (tick env (s, t0, w)))"
      by (simp add: case_prod_unfold Let_def)
    ultimately show ?thesis
      by simp
  qed
qed

lemma within_hours_after_noon:
  "is_within_operational_hours None (noon + 60000000)"
  "is_within_operational_hours None (noon + 300000000)"
  "is_within_operational_hours None (noon + 360000000)"
  by (simp_all add: is_within_operational_hours_def load_config_def get_default_config_def
      strftime_HM_def two_digits_def seconds_def noon_def)

text \<open>
  C9. Let \<^verbatim>\<open>stop()\<close> be called while a running scheduler sleeps in the countdown of a break
  (during sleep number \<open>k\<close>, counted from 0, of a break of more than \<open>k\<close> minutes). Then the
  countdown ends after that sleep, having slept \<open>k + 1\<close> times, and \<^verbatim>\<open>take_break\<close> returns
  with \<open>break_mode\<close> still set, the scheduler stopped and \<open>last_break_time\<close> as it was.
  When \<^verbatim>\<open>start\<close> is then called on the same object, whatever the loop reads and however
  long it runs, the scheduler stays in break mode and no task is dispatched: the tasks and the
  world they work on stay as they were.
\<close>

theorem stop_during_break_blocks_tasks:
  assumes "is_running s" and "k < nat (break_minutes schedule)"
  shows "break_mode (fst (take_break (Some k) end_now schedule s)) \<and>
         \<not> is_running (fst (take_break (Some k) end_now schedule s)) \<and>
         last_break_time (fst (take_break (Some k) end_now schedule s)) = last_break_time s \<and>
         length (filter is_sleep (snd (take_break (Some k) end_now schedule s))) = Suc k \<and>
         blocked s w (start now envs (fst (take_break (Some k) end_now schedule s)) w)"
proof -
  let ?s1 = "fst (take_break (Some k) end_now schedule s)"
  from assms have s1: "?s1 = s\<lparr>is_running := False, break_mode := True\<rparr>"
    by (rule take_break_stopped)
  from assms have sleeps: "length (filter is_sleep (snd (take_break (Some k) end_now schedule s))) = Suc k"
    by (rule take_break_stopped)
  have "blocked (?s1\<lparr>is_running := True\<rparr>) w
          (start_loop envs (?s1\<lparr>is_running := True\<rparr>, now, w) [Print_starting])"
    by (rule start_loop_in_break_mode) (simp_all add: s1)
  then have "blocked s w (start now envs ?s1 w)"
    by (simp add: start_def blocked_def s1)
  with s1 sleeps show ?thesis
    by simp
qed

theorem stop_during_break_blocks_tasks_witness:
  "is_running running_sync \<and> 2 < nat (break_minutes hourly_break) \<and>
   break_mode (fst (take_break (Some 2) (noon + seconds 180) hourly_break running_sync)) \<and>
   \<not> is_running (fst (take_break (Some 2) (noon + seconds 180) hourly_break running_sync)) \<and>
   last_break_time (fst (take_break (Some 2) (noon + seconds 180) hourly_break running_sync)) = None \<and>
   length (filter is_sleep (snd (take_break (Some 2) (noon + seconds 180) hourly_break running_sync))) = 3 \<and>
   dispatched (snd (start (noon + seconds 300)
       [tick_at (noon + seconds 300), tick_at (noon + seconds 360)]
       (fst (take_break (Some 2) (noon + seconds 180) hourly_break running_sync)) [])) = [] \<and>
   dispatched (snd (start (noon + seconds 300)
       [tick_at (noon + seconds 300), tick_at (noon + seconds 360)] running_sync [])) = [''sync'']"
proof -
  have run: "is_running running_sync" and k: "2 < nat (break_minutes hourly_break)"
    and last: "last_break_time running_sync = None"
    by (simp_all add: running_sync_def hourly_break_def sync_scheduler_def add_task_def
        AutomationScheduler_init_def)
  note inst = stop_during_break_blocks_tasks [OF run k, of "noon + seconds 180" "[]"
      "noon + seconds 300" "[tick_at (noon + seconds 300), tick_at (noon + seconds 360)]"]
  have free: "dispatched (snd (start (noon + seconds 300)
       [tick_at (noon + seconds 300), tick_at (noon + seconds 360)] running_sync [])) = [''sync'']"
    by (simp add: start_def tick_def tick_at_def within_hours_after_noon should_take_break_def
        load_config_def get_default_config_def break_due_def run_tasks_def run_task_def due_def
        sleeping_def running_sync_def sync_scheduler_def add_task_def AutomationScheduler_init_def
        sync_task_def seconds_def)
  from inst run k last free show ?thesis
    by (simp add: blocked_def)
qed


subsection \<open>The safety protocol and the scheduler\<close>

text \<open>
  C1 (the code at an input where it departs from the claim). The eleventh like within the hour
  triggers the safety protocol: the monitor writes the event of a temporary suspension of 30
  minutes and its report asks for attention. The scheduler never reads the monitor or the
  event: at its next iteration, one minute later, with no break due by its own rules, it
  dispatches the task \<open>sync\<close>, sleeps its usual 60 seconds and is not in break mode.
\<close>

theorem suspension_ignored_by_scheduler:
  "events_file suspended_monitor =
     Holds [\<lparr>event_timestamp = noon + seconds 10, event = ''safety_protocol_activated'',
             event_action = ''temporary_suspension'', duration_minutes = 30\<rparr>] \<and>
   safety_status (get_safety_report (noon + seconds 60) (\<lambda>i. noon + seconds 60) suspended_monitor) =
     ''attention_required'' \<and>
   snd (tick (tick_at (noon + seconds 60)) (running_sync, noon - seconds 600, [])) =
     [Print_running_task ''sync'', Sleep 60] \<and>
   \<not> break_mode (fst (fst (tick (tick_at (noon + seconds 60)) (running_sync, noon - seconds 600, []))))"
proof -
  have "events_file suspended_monitor =
     Holds [\<lparr>event_timestamp = noon + seconds 10, event = ''safety_protocol_activated'',
             event_action = ''temporary_suspension'', duration_minutes = 30\<rparr>]"
    by code_simp
  moreover have "safety_status (get_safety_report (noon + seconds 60) (\<lambda>i. noon + seconds 60) suspended_monitor) =
     ''attention_required''"
    by code_simp
  moreover have "tick (tick_at (noon + seconds 60)) (running_sync, noon - seconds 600, []) =
      ((running_sync\<lparr>tasks := [\<lparr>name = ''sync'', function = sync_task, interval = 30,
                                     last_run = Some (noon + seconds 60)\<rparr>]\<rparr>,
        noon - seconds 600, [''synced'']),
       [Print_running_task ''sync'', Sleep 60])"
    by (simp add: tick_def tick_at_def within_hours_after_noon should_take_break_def
        load_config_def get_default_config_def break_due_def run_tasks_def run_task_def due_def
        sleeping_def running_sync_def sync_scheduler_def add_task_def AutomationScheduler_init_def
        sync_task_def seconds_def)
  ultimately show ?thesis
    by (simp add: running_sync_def sync_scheduler_def add_task_def AutomationScheduler_init_def)
qed


end
